theory Spec2Isabelle
  imports Complex_Main
begin

section \<open>GeoJSON data and the Leaflet values MapView.tsx works with\<close>

text \<open>
  Coordinates are JavaScript numbers; they are idealised as reals. A GeoJSON position
  is written in the order \<open>[lng, lat]\<close>, a Leaflet \<open>LatLng\<close> has the fields
  \<open>lat\<close> and \<open>lng\<close>.
\<close>

type_synonym Position = "real \<times> real"

record LatLng =
  lat :: real
  lng :: real

text \<open>
  The \<open>Geometry\<close> union of the geojson typings. \<open>Malformed\<close> stands for a runtime
  value that is not one of the seven geometry objects (the payload is parsed JSON and is
  not validated): \<open>L.geoJSON\<close> throws on it.
\<close>

datatype Geometry =
    Point Position
  | MultiPoint "Position list"
  | LineString "Position list"
  | MultiLineString "Position list list"
  | Polygon "Position list list"
  | MultiPolygon "Position list list list"
  | GeometryCollection "Geometry list"
  | Malformed

text \<open>
  A \<open>Feature\<close> as the route builds it (\<open>buildFeature\<close>): the record id (which the
  route repeats among the properties), the property \<open>cod_imovel\<close> and the geometry,
  which may be null on the client.
\<close>

record Feature =
  fid :: int
  cod_imovel :: string
  geometry :: "Geometry option"

text \<open>
  \<open>L.LatLngBounds\<close>: the empty bounds \<open>L.latLngBounds([])\<close> have no corners and are
  not valid; \<open>extend\<close> sets both corners to the first point and widens them afterwards.
\<close>

type_synonym LatLngBounds = "(LatLng \<times> LatLng) option"

definition isValid :: "LatLngBounds \<Rightarrow> bool" where
  "isValid b = (b \<noteq> None)"

definition extendBounds :: "LatLngBounds \<Rightarrow> LatLng \<Rightarrow> LatLngBounds" where
  "extendBounds b p =
     (case b of
        None \<Rightarrow> Some (p, p)
      | Some (sw, ne) \<Rightarrow>
          Some (\<lparr>lat = min (lat p) (lat sw), lng = min (lng p) (lng sw)\<rparr>,
                \<lparr>lat = max (lat p) (lat ne), lng = max (lng p) (lng ne)\<rparr>))"

definition getCenter :: "LatLng \<times> LatLng \<Rightarrow> LatLng" where
  "getCenter b = (case b of (sw, ne) \<Rightarrow>
     \<lparr>lat = (lat sw + lat ne) / 2, lng = (lng sw + lng ne) / 2\<rparr>)"

definition coordsToLatLng :: "Position \<Rightarrow> LatLng" where
  "coordsToLatLng c = \<lparr>lat = snd c, lng = fst c\<rparr>"

text \<open>
  \<open>L.geoJSON(geometry)\<close> builds one layer per geometry (a marker, a polyline, a
  polygon, or a group for a collection) and throws \<open>Invalid GeoJSON object.\<close> on
  anything else. Of the layer, \<open>geometryToLatLng\<close> only reads \<open>getBounds()\<close>, which is
  the box around every coordinate of every layer, so the layer is represented by its
  coordinates; \<open>None\<close> is the thrown error.
\<close>

fun geoJSON :: "Geometry \<Rightarrow> LatLng list option" where
  "geoJSON (Point c) = Some [coordsToLatLng c]"
| "geoJSON (MultiPoint cs) = Some (map coordsToLatLng cs)"
| "geoJSON (LineString cs) = Some (map coordsToLatLng cs)"
| "geoJSON (MultiLineString css) = Some (map coordsToLatLng (concat css))"
| "geoJSON (Polygon css) = Some (map coordsToLatLng (concat css))"
| "geoJSON (MultiPolygon csss) = Some (map coordsToLatLng (concat (concat csss)))"
| "geoJSON (GeometryCollection gs) = map_option concat (those (map geoJSON gs))"
| "geoJSON Malformed = None"

definition getBounds :: "LatLng list \<Rightarrow> LatLngBounds" where
  "getBounds layer = foldl extendBounds None layer"

text \<open>
  \<open>geometryToLatLng\<close> (MapView.tsx, lines 42-57): null for a missing geometry, for
  bounds that are not valid, and for whatever \<open>L.geoJSON\<close> throws (caught and logged).
\<close>

definition geometryToLatLng :: "Geometry option \<Rightarrow> LatLng option" where
  "geometryToLatLng g =
     (case g of
        None \<Rightarrow> None
      | Some geom \<Rightarrow>
          (case geoJSON geom of
             None \<Rightarrow> None
           | Some layer \<Rightarrow>
               (case getBounds layer of
                  None \<Rightarrow> None
                | Some bounds \<Rightarrow> Some (getCenter bounds))))"


section \<open>The cluster index and the map widget\<close>

text \<open>
  A point handed to the index (\<open>ClusterPointFeature\<close>): its coordinates
  \<open>[center.lng, center.lat]\<close> and \<open>properties.id\<close>, the locally assigned point id.
\<close>

record ClusterPointFeature =
  coordinates :: Position
  pointId :: nat

text \<open>
  What a query returns (\<open>ClusterOrPointFeature\<close>): a cluster with its coordinates and
  the optional properties \<open>cluster_id\<close> and \<open>point_count\<close>, or one of the loaded points.
\<close>

datatype ClusterOrPointFeature =
    Cluster Position "nat option" "nat option"
  | Leaf ClusterPointFeature

text \<open>
  A \<open>Supercluster\<close> instance: its two options and the points of the last \<open>load\<close>
  (none before the first one).
\<close>

record Supercluster =
  radius :: nat
  maxZoom :: nat
  loaded :: "ClusterPointFeature list"

definition CLUSTER_RADIUS :: nat where
  "CLUSTER_RADIUS = 60"

definition CLUSTER_MAX_ZOOM :: nat where
  "CLUSTER_MAX_ZOOM = 18"

definition FETCH_LIMIT :: int where
  "FETCH_LIMIT = 5000"

definition newSupercluster :: Supercluster where
  "newSupercluster = \<lparr>radius = CLUSTER_RADIUS, maxZoom = CLUSTER_MAX_ZOOM, loaded = []\<rparr>"

text \<open>The method \<open>load(points)\<close> of an instance: the index is rebuilt over the points
  given, whatever it held before.\<close>

definition load :: "ClusterPointFeature list \<Rightarrow> Supercluster \<Rightarrow> Supercluster" where
  "load points index = index\<lparr>loaded := points\<rparr>"

text \<open>
  Whether two positions lie within the cluster radius of each other at a zoom level is
  decided by the package's projection, which the sources do not contain: it is a
  parameter of the model.
\<close>

type_synonym Nearness = "int \<Rightarrow> Position \<Rightarrow> Position \<Rightarrow> bool"

type_synonym BBox = "real \<times> real \<times> real \<times> real"

definition inBBox :: "BBox \<Rightarrow> Position \<Rightarrow> bool" where
  "inBBox bbox c = (case bbox of (west, south, east, north) \<Rightarrow>
     west \<le> fst c \<and> fst c \<le> east \<and> south \<le> snd c \<and> snd c \<le> north)"


definition centroid :: "ClusterPointFeature list \<Rightarrow> Position" where
  "centroid ps =
     (sum_list (map (\<lambda>p. fst (coordinates p)) ps) / real (length ps),
      sum_list (map (\<lambda>p. snd (coordinates p)) ps) / real (length ps))"

text \<open>
  Modelled from the spec: the query of the Spatial Cluster Index (the \<open>supercluster\<close>
  package, whose code is not among the sources). Section 4.4: points within the radius of
  each other at the zoom are merged into one Cluster, isolated points pass through as
  Leaf entries; section 3: a Cluster aggregates at least two points and carries their
  centroid, the member count and a synthetic cluster id (here the point id of its first
  member). The points are taken in the order they were loaded; each one gathers the
  points near it that no earlier one has taken.
\<close>

function mergePass :: "(Position \<Rightarrow> Position \<Rightarrow> bool) \<Rightarrow> ClusterPointFeature list \<Rightarrow>
    ClusterOrPointFeature list" where
  "mergePass near [] = []"
| "mergePass near (p # ps) =
     (let members = filter (\<lambda>q. near (coordinates p) (coordinates q)) ps;
          others = filter (\<lambda>q. \<not> near (coordinates p) (coordinates q)) ps
      in (if members = [] then Leaf p
          else Cluster (centroid (p # members)) (Some (pointId p)) (Some (length (p # members))))
         # mergePass near others)"
  by pat_completeness auto
termination
  by (relation "measure (\<lambda>(near, ps). length ps)") (auto simp: less_Suc_eq_le)

definition position :: "ClusterOrPointFeature \<Rightarrow> Position" where
  "position c = (case c of Cluster xy cluster_id point_count \<Rightarrow> xy | Leaf p \<Rightarrow> coordinates p)"

text \<open>
  Modelled from the spec: \<open>getClusters(bbox, zoom)\<close> of the absent package, the entries
  of the clustering for the zoom that lie in the queried rectangle.
\<close>

definition getClusters :: "Nearness \<Rightarrow> Supercluster \<Rightarrow> BBox \<Rightarrow> int \<Rightarrow> ClusterOrPointFeature list" where
  "getClusters near index bbox z =
     filter (\<lambda>c. inBBox bbox (position c)) (mergePass (near z) (loaded index))"



text \<open>
  \<open>getClusterExpansionZoom(clusterId)\<close> of the package returns a zoom or throws (an
  error message); it is a parameter as well.
\<close>

type_synonym Expansion = "Supercluster \<Rightarrow> nat \<Rightarrow> string + real"

text \<open>
  The Leaflet map as the component reads it: \<open>getZoom()\<close>, \<open>getCenter()\<close> and the
  corners of \<open>getBounds()\<close>. What the component asks of it (\<open>fitBounds\<close>, \<open>flyTo\<close>) is
  recorded as a request. The widget is not among the sources; how it answers \<open>fitBounds\<close>
  belongs to its description. If it animates the move, \<open>fitBounds\<close> returns at once and the
  view that is reached is reported later through the move events (\<open>resetsTo = None\<close>). If
  it does not animate (the target is too far for an animation, or the view is there
  already), it takes the view at once and fires \<open>zoomend\<close> and \<open>moveend\<close> before
  \<open>fitBounds\<close> returns (\<open>resetsTo = Some view\<close>, the view being what the widget computes
  from the bounds and its size); asked again for the view it already shows, it fires
  \<open>moveend\<close> at once again. A handler of these events then runs nested in the call of
  \<open>fitBounds\<close>; \<open>stackDepth\<close> is the number of nested calls of \<open>renderClusters\<close> that the
  JavaScript stack has room for below the outermost one.
\<close>

type_synonym View = "LatLng \<times> real \<times> (LatLng \<times> LatLng)"

record LeafletMap =
  viewCenter :: LatLng
  zoom :: real
  viewport :: "LatLng \<times> LatLng"
  resetsTo :: "View option"
  stackDepth :: nat

definition showing :: "View \<Rightarrow> LeafletMap \<Rightarrow> LeafletMap" where
  "showing v m = (case v of (c, z, b) \<Rightarrow> m\<lparr>viewCenter := c, zoom := z, viewport := b\<rparr>)"

datatype ViewRequest =
    FitBounds "LatLng \<times> LatLng"
  | FlyTo LatLng real

text \<open>
  An overlay of the cluster layer: a cluster marker at a place, showing a count, with
  the cluster id its click handler has captured (if it has a handler), or the exact
  geometry of one feature.
\<close>

datatype Layer =
    ClusterMarker LatLng nat "nat option"
  | FeatureLayer Feature


section \<open>JavaScript strings and numbers\<close>

text \<open>
  \<open>String(n)\<close> for an integer \<open>n\<close>: the decimal digits, with a minus sign for a
  negative number. (JavaScript prints an integer this way up to \<open>10^21\<close>; record ids and
  the fetch limit are far below.)
\<close>

definition digitChar :: "nat \<Rightarrow> char" where
  "digitChar d = char_of (48 + d)"

fun digits :: "nat \<Rightarrow> string" where
  "digits n = (if n < 10 then [digitChar n] else digits (n div 10) @ [digitChar (n mod 10)])"

declare digits.simps [simp del]

definition jsString :: "int \<Rightarrow> string" where
  "jsString n = (if n < 0 then CHR ''-'' # digits (nat (- n)) else digits (nat n))"

text \<open>
  A JavaScript string is truthy unless it is empty; \<open>undefined\<close> is falsy.
\<close>

definition truthy :: "string option \<Rightarrow> bool" where
  "truthy v = (case v of None \<Rightarrow> False | Some s \<Rightarrow> s \<noteq> [])"

section \<open>The state of a load session\<close>

text \<open>The query string of one call of \<open>fetch\<close>, and what comes back.\<close>

record Request =
  limitParam :: "string option"
  cursorParam :: "string option"

record ApiResponse =
  features :: "Feature list"
  nextCursor :: "string option"

text \<open>
  The body of a response: an \<open>ApiResponse\<close>, some other JSON value (the route's
  \<open>{ error }\<close> object), or text that \<open>response.json()\<close> rejects.
\<close>

datatype Body = Payload ApiResponse | OtherJson | NotJson

record Response =
  ok :: bool
  status :: nat
  body :: Body

record ToastMessage =
  severity :: string
  summary :: string
  detail :: string

text \<open>
  Where the asynchronous function \<open>load\<close> is suspended: at \<open>await fetch(...)\<close>, at
  \<open>await response.json()\<close> (of the response it holds), at the delay between two
  pages, or not at all because it has returned.
\<close>

datatype LoadPc = AwaitFetch | AwaitJson Response | AwaitTimer | Returned

text \<open>
  The refs and the React state of \<open>MapView\<close>, the local \<open>cursor\<close> of the effect, the
  point where \<open>load\<close> is suspended, and two logs of what the component has asked of its
  environment: the calls of \<open>fetch\<close> and the requests to the map widget. A mounted
  \<open>Toast\<close> is the list of the messages it has shown. \<open>handlers\<close> tells whether the move
  handlers of lines 310-315 are registered on the map.

  The effect that starts \<open>load\<close> depends on \<open>addCollection\<close>, which depends on the state
  \<open>mapReady\<close>: a mount runs the effect at the first render and again when \<open>mapReady\<close>
  has become true. The loop of the first run is not stopped by the second run (line 235
  clears the flag that the cleanup of line 295 has just set), so two loops can be
  suspended at the same time, on the same refs and the same state. \<open>pc\<close> and \<open>cursor\<close>
  belong to the loop of the latest run, and \<open>mapReady\<close> is the state, which the
  \<open>addCollection\<close> of the latest run has captured; \<open>earlierPc\<close>, \<open>earlierCursor\<close> and
  \<open>earlierReady\<close> are the same three for the loop of the run before (\<open>mapReady\<close> changes
  once, so there is no third run).
\<close>

record Session =
  toastRef :: "ToastMessage list option"
  mapRef :: "LeafletMap option"
  clusterLayerRef :: "Layer list option"
  superclusterRef :: "Supercluster option"
  featureMapRef :: "nat \<rightharpoonup> Feature"
  pointsRef :: "ClusterPointFeature list"
  nextFeatureIdRef :: nat
  boundsRef :: "LatLngBounds option"
  cancelledRef :: bool
  shouldFitBoundsRef :: bool
  mapReady :: bool
  totalFetched :: nat
  hasMore :: bool
  isLoading :: bool
  cursor :: "string option"
  pc :: LoadPc
  network :: "Request list"
  viewRequests :: "ViewRequest list"
  handlers :: bool
  earlierPc :: LoadPc
  earlierCursor :: "string option"
  earlierReady :: bool

section \<open>The functions of MapView\<close>

text \<open>\<open>ensureClusterLayer\<close> (lines 85-96): nothing without a map, else the layer group,
  created on first use.\<close>

definition ensureClusterLayer :: "Session \<Rightarrow> Session" where
  "ensureClusterLayer s =
     (case mapRef s of
        None \<Rightarrow> s
      | Some m \<Rightarrow> (if clusterLayerRef s = None then s\<lparr>clusterLayerRef := Some []\<rparr> else s))"

text \<open>\<open>getSupercluster\<close> (lines 98-110): the instance, created on first use and loaded
  with the points buffer if that is not empty.\<close>

definition getSupercluster :: "Session \<Rightarrow> Session" where
  "getSupercluster s =
     (if superclusterRef s = None
      then (let instance = newSupercluster;
                instance' = (if pointsRef s \<noteq> [] then load (pointsRef s) instance else instance)
            in s\<lparr>superclusterRef := Some instance'\<rparr>)
      else s)"

text \<open>
  The body of the \<open>forEach\<close> of \<open>renderClusters\<close> (lines 132-172): a marker for a
  cluster, showing \<open>point_count ?? 1\<close>, with a click handler if \<open>cluster_id\<close> is a
  number; for a leaf nothing if its id is falsy or unknown to the feature table, else the
  feature's own geometry.
\<close>

definition overlayFor :: "(nat \<rightharpoonup> Feature) \<Rightarrow> ClusterOrPointFeature \<Rightarrow> Layer option" where
  "overlayFor table c =
     (case c of
        Cluster xy cluster_id point_count \<Rightarrow>
          Some (ClusterMarker \<lparr>lat = snd xy, lng = fst xy\<rparr>
                  (case point_count of None \<Rightarrow> 1 | Some n \<Rightarrow> n) cluster_id)
      | Leaf p \<Rightarrow>
          (if pointId p = 0 then None
           else (case table (pointId p) of
                   None \<Rightarrow> None
                 | Some feature \<Rightarrow> Some (FeatureLayer feature))))"

text \<open>
  Lines 125-172 of \<open>renderClusters\<close>: the layer is refilled from the query for the
  map's rounded zoom and visible rectangle.
\<close>

definition drawClusters :: "Nearness \<Rightarrow> LeafletMap \<Rightarrow> Supercluster \<Rightarrow> Session \<Rightarrow> Session" where
  "drawClusters near m superclusterInstance s2 =
     (let z = round (zoom m);
          bounds = viewport m;
          clusters = getClusters near superclusterInstance
             (lng (fst bounds), lat (fst bounds), lng (snd bounds), lat (snd bounds)) z
      in s2\<lparr>clusterLayerRef :=
              Some (List.map_filter (overlayFor (featureMapRef s2)) clusters)\<rparr>)"

text \<open>
  \<open>renderClusters\<close> up to the condition of line 174 (lines 112-174). Without a map, a
  layer or an instance nothing is drawn; the layer is cleared, and refilled if there are
  points. The second component is the test of line 174: the bounds to fit and the map, if
  the fit-once flag is set and the accumulated bounds are valid.
\<close>

definition drawPass ::
    "Nearness \<Rightarrow> Session \<Rightarrow> Session \<times> ((LatLng \<times> LatLng) \<times> LeafletMap) option" where
  "drawPass near s0 =
     (let s1 = getSupercluster (ensureClusterLayer s0) in
      case mapRef s1 of
        None \<Rightarrow> (s1, None)
      | Some m \<Rightarrow>
          (case clusterLayerRef s1 of
             None \<Rightarrow> (s1, None)
           | Some clusterLayer \<Rightarrow>
               (case superclusterRef s1 of
                  None \<Rightarrow> (s1, None)
                | Some superclusterInstance \<Rightarrow>
                    (let s2 = s1\<lparr>clusterLayerRef := Some []\<rparr> in
                     if pointsRef s2 = [] then (s2, None)
                     else
                       (let s3 = drawClusters near m superclusterInstance s2
                        in (case boundsRef s3 of
                              Some (Some b) \<Rightarrow>
                                (if shouldFitBoundsRef s3 then (s3, Some (b, m)) else (s3, None))
                            | _ \<Rightarrow> (s3, None)))))))"

text \<open>
  \<open>renderClusters\<close> (lines 112-178), as one frame of the call stack; the first argument
  is the number of frames the stack still has room for, and the second component of the
  result tells whether the call ended by throwing (the \<open>RangeError\<close> of an exhausted
  stack, which nothing below \<open>load\<close> catches) instead of returning. If the fit is due,
  \<open>map.fitBounds\<close> is called (line 175) and, when that call has returned, the flag is
  cleared (line 176). A widget that animates returns at once. A widget that does not
  animate takes the new view and fires its move events inside the call: if the handler of
  lines 310-315 is registered, it calls \<open>renderClusters\<close> again, one frame deeper, with
  the flag still set.
\<close>

fun renderFrame :: "nat \<Rightarrow> Nearness \<Rightarrow> Session \<Rightarrow> Session \<times> bool" where
  "renderFrame 0 near s0 = (s0, True)"
| "renderFrame (Suc depth) near s0 =
     (case drawPass near s0 of
        (s3, None) \<Rightarrow> (s3, False)
      | (s3, Some (b, m)) \<Rightarrow>
          (let s4 = s3\<lparr>viewRequests := viewRequests s3 @ [FitBounds b]\<rparr>
           in case resetsTo m of
                None \<Rightarrow> (s4\<lparr>shouldFitBoundsRef := False\<rparr>, False)
              | Some v \<Rightarrow>
                  (let s5 = s4\<lparr>mapRef := Some (showing v m)\<rparr>
                   in if handlers s5
                      then (case renderFrame depth near s5 of
                              (s6, threw) \<Rightarrow>
                                (if threw then (s6, True)
                                 else (s6\<lparr>shouldFitBoundsRef := False\<rparr>, False)))
                      else (s5\<lparr>shouldFitBoundsRef := False\<rparr>, False))))"

text \<open>
  A call of \<open>renderClusters\<close> from a callback of the event loop, with the whole stack
  below it: the session it leaves behind, and whether it threw.
\<close>

definition renderClustersCall :: "Nearness \<Rightarrow> Session \<Rightarrow> Session \<times> bool" where
  "renderClustersCall near s =
     renderFrame (Suc (case mapRef s of None \<Rightarrow> 0 | Some m \<Rightarrow> stackDepth m)) near s"

definition renderClusters :: "Nearness \<Rightarrow> Session \<Rightarrow> Session" where
  "renderClusters near s = fst (renderClustersCall near s)"

definition renderClustersThrows :: "Nearness \<Rightarrow> Session \<Rightarrow> bool" where
  "renderClustersThrows near s = snd (renderClustersCall near s)"

text \<open>
  The body of the \<open>forEach\<close> of \<open>addCollection\<close> (lines 199-217), on the session and
  the two locals \<open>newPoints\<close> and \<open>nextBounds\<close>: a feature without a centre is passed
  over; any other takes the next id, is stored in the feature table under it, and its
  centre is pushed as a point and added to the bounds.
\<close>

definition indexFeature ::
    "Session \<times> ClusterPointFeature list \<times> LatLngBounds \<Rightarrow> Feature \<Rightarrow>
     Session \<times> ClusterPointFeature list \<times> LatLngBounds" where
  "indexFeature acc feature =
     (case acc of (s, newPoints, nextBounds) \<Rightarrow>
        (case geometryToLatLng (geometry feature) of
           None \<Rightarrow> acc
         | Some center \<Rightarrow>
             (let i = nextFeatureIdRef s
              in (s\<lparr>nextFeatureIdRef := i + 1,
                     featureMapRef := (featureMapRef s)(i \<mapsto> feature)\<rparr>,
                  newPoints @ [\<lparr>coordinates = (lng center, lat center), pointId = i\<rparr>],
                  extendBounds nextBounds center))))"

text \<open>
  \<open>addCollection\<close> (lines 181-232). An empty collection and a collection that yields
  no point change nothing (beyond creating the index instance); otherwise the new points
  are appended to the buffer, the bounds are replaced if valid, the instance is loaded
  with the whole buffer (the same instance, in place), and the clusters are drawn if the
  map was ready when this \<open>addCollection\<close> was created. What \<open>renderClusters\<close> throws,
  \<open>addCollection\<close> throws; the writes before it have been made.
\<close>

definition addCollectionCall :: "Nearness \<Rightarrow> Feature list \<Rightarrow> Session \<Rightarrow> Session \<times> bool" where
  "addCollectionCall near collection s0 =
     (if collection = [] then (s0, False)
      else
        (let s1 = getSupercluster s0;
             nextBounds0 = (case boundsRef s1 of
                              Some (Some (sw, ne)) \<Rightarrow> extendBounds (extendBounds None sw) ne
                            | _ \<Rightarrow> None)
         in case foldl indexFeature (s1, [], nextBounds0) collection of
              (s2, newPoints, nextBounds) \<Rightarrow>
                (if newPoints = [] then (s2, False)
                 else
                   (let s3 = s2\<lparr>pointsRef := pointsRef s2 @ newPoints,
                                 boundsRef := (if isValid nextBounds then Some nextBounds
                                               else boundsRef s2)\<rparr>;
                        s4 = s3\<lparr>superclusterRef :=
                                 map_option (load (pointsRef s3)) (superclusterRef s3)\<rparr>
                    in if mapReady s4 then renderClustersCall near s4 else (s4, False)))))"

definition addCollection :: "Nearness \<Rightarrow> Feature list \<Rightarrow> Session \<Rightarrow> Session" where
  "addCollection near collection s = fst (addCollectionCall near collection s)"

definition addCollectionThrows :: "Nearness \<Rightarrow> Feature list \<Rightarrow> Session \<Rightarrow> bool" where
  "addCollectionThrows near collection s = snd (addCollectionCall near collection s)"


text \<open>
  The click handler of a cluster marker (lines 140-157), for the place and the cluster
  id it has captured. It looks the id up in the instance as it is at the time of the
  click. Nothing happens while the buffer is empty; a lookup that throws is caught and
  logged and the handler returns; otherwise the map is asked to fly to the place at the
  expansion zoom, capped at \<open>CLUSTER_MAX_ZOOM\<close>.
\<close>

definition clusterClick :: "Expansion \<Rightarrow> LatLng \<Rightarrow> nat \<Rightarrow> Session \<Rightarrow> Session" where
  "clusterClick expansion place clusterId s =
     (if pointsRef s = [] then s
      else
        (case superclusterRef s of
           None \<Rightarrow> s
         | Some superclusterInstance \<Rightarrow>
             (case expansion superclusterInstance clusterId of
                Inl error \<Rightarrow> s
              | Inr z \<Rightarrow>
                  s\<lparr>viewRequests :=
                      viewRequests s @ [FlyTo place (min z (real CLUSTER_MAX_ZOOM))]\<rparr>)))"

text \<open>The \<open>catch\<close> block of \<open>load\<close> (lines 278-284): \<open>toastRef.current?.show(...)\<close>.\<close>

definition loadErrorToast :: ToastMessage where
  "loadErrorToast =
     \<lparr>severity = ''error'', summary = ''Erro'', detail = ''Falha ao carregar os dados do mapa''\<rparr>"

definition catchBlock :: "Session \<Rightarrow> Session" where
  "catchBlock s =
     (case toastRef s of
        None \<Rightarrow> s
      | Some shown \<Rightarrow> s\<lparr>toastRef := Some (shown @ [loadErrorToast])\<rparr>)"

text \<open>The \<open>finally\<close> block (lines 285-289), after which \<open>load\<close> has returned.\<close>

definition finallyBlock :: "Session \<Rightarrow> Session" where
  "finallyBlock s =
     (if \<not> cancelledRef s then s\<lparr>isLoading := False, pc := Returned\<rparr>
      else s\<lparr>pc := Returned\<rparr>)"

text \<open>
  The head of the loop (lines 252-260): if the session is cancelled the loop ends;
  otherwise the next page is requested, with the cursor if there is one, and \<open>load\<close>
  waits for the response.
\<close>

definition loopHead :: "Session \<Rightarrow> Session" where
  "loopHead s =
     (if cancelledRef s then finallyBlock s
      else s\<lparr>network := network s @
                 [\<lparr>limitParam = Some (jsString FETCH_LIMIT),
                   cursorParam = (if truthy (cursor s) then cursor s else None)\<rparr>],
             pc := AwaitFetch\<rparr>)"

text \<open>
  Lines 258-264, when the \<open>fetch\<close> settles: a rejected promise (\<open>None\<close>) and a
  response that is not \<open>ok\<close> end in the \<open>catch\<close> block; otherwise the body is read.
\<close>

definition fetchSettled :: "Response option \<Rightarrow> Session \<Rightarrow> Session" where
  "fetchSettled r s =
     (case r of
        None \<Rightarrow> finallyBlock (catchBlock s)
      | Some response \<Rightarrow>
          (if \<not> ok response then finallyBlock (catchBlock s)
           else s\<lparr>pc := AwaitJson response\<rparr>))"

text \<open>
  Lines 266-276, when \<open>response.json()\<close> settles: the features are indexed and
  counted; without a next cursor \<open>hasMore\<close> is cleared and the loop is left, otherwise
  the cursor is kept and \<open>load\<close> waits for the delay. A body that is not an
  \<open>ApiResponse\<close> throws (in \<open>json()\<close> or at \<open>collection.features\<close>), and so does an
  \<open>addCollection\<close> whose render pass throws: the \<open>catch\<close> block follows.
\<close>

definition jsonSettled :: "Nearness \<Rightarrow> Response \<Rightarrow> Session \<Rightarrow> Session" where
  "jsonSettled near response s =
     (case body response of
        Payload payload \<Rightarrow>
          (if addCollectionThrows near (features payload) s
           then finallyBlock (catchBlock (addCollection near (features payload) s))
           else
             (let s1 = addCollection near (features payload) s;
                  s2 = s1\<lparr>totalFetched := totalFetched s1 + length (features payload)\<rparr>
              in if \<not> truthy (nextCursor payload)
                 then finallyBlock (s2\<lparr>hasMore := False\<rparr>)
                 else s2\<lparr>cursor := nextCursor payload, pc := AwaitTimer\<rparr>))
      | _ \<Rightarrow> finallyBlock (catchBlock s))"

text \<open>
  The first render: the initial values of the refs and of the state, with the toast
  attached, for a map that may or may not exist yet. The move handlers are registered by
  the effect of lines 300-321 if the map is ready and there; no loop has run before.
\<close>

definition mounted :: "LeafletMap option \<Rightarrow> bool \<Rightarrow> Session" where
  "mounted m ready =
     \<lparr>toastRef = Some [], mapRef = m, clusterLayerRef = None, superclusterRef = None,
      featureMapRef = Map.empty, pointsRef = [], nextFeatureIdRef = 1, boundsRef = None,
      cancelledRef = False, shouldFitBoundsRef = True, mapReady = ready, totalFetched = 0,
      hasMore = True, isLoading = False, cursor = None, pc = Returned, network = [],
      viewRequests = [], handlers = (ready \<and> m \<noteq> None), earlierPc = Returned,
      earlierCursor = None, earlierReady = False\<rparr>"

text \<open>
  The effect that starts a session (lines 234-292): everything is reset, and a new
  \<open>load\<close> runs up to its first \<open>await\<close>. A loop of the run before that is still
  suspended stays so, with its own cursor and its own \<open>addCollection\<close>: the flag that
  would end it is cleared in line 235.
\<close>

definition startLoad :: "Session \<Rightarrow> Session" where
  "startLoad s =
     loopHead (s\<lparr>earlierPc := pc s, earlierCursor := cursor s, earlierReady := mapReady s,
                 cancelledRef := False, shouldFitBoundsRef := True, boundsRef := None,
                 featureMapRef := Map.empty, pointsRef := [], superclusterRef := None,
                 nextFeatureIdRef := 1, totalFetched := 0, hasMore := True, cursor := None,
                 isLoading := True\<rparr>)"

text \<open>
  The two loops change places: what is written for the loop of the latest run serves
  for the loop of the run before, between two exchanges.
\<close>

definition swapLoops :: "Session \<Rightarrow> Session" where
  "swapLoops s =
     s\<lparr>pc := earlierPc s, cursor := earlierCursor s, mapReady := earlierReady s,
       earlierPc := pc s, earlierCursor := cursor s, earlierReady := mapReady s\<rparr>"

section \<open>A session as a sequence of events\<close>

text \<open>
  JavaScript runs one callback at a time, to its end or to its next \<open>await\<close>. A session
  is therefore a sequence of events, each handled in one step:
  \<^item> \<open>FetchSettled\<close>, \<open>JsonSettled\<close>, \<open>TimerFired\<close>: the promise that the \<open>load\<close> of the
    latest run of the effect is waiting for settles (an event that \<open>load\<close> is not waiting
    for does not occur and changes nothing);
  \<^item> \<open>EarlierFetchSettled\<close>, \<open>EarlierJsonSettled\<close>, \<open>EarlierTimerFired\<close>: the same for
    the \<open>load\<close> of the run before, which goes on with the \<open>cursor\<close> and the
    \<open>addCollection\<close> of its own closure;
  \<^item> \<open>MapReady\<close>: the map instance arrives (ref callback, lines 356-361);
    \<open>mapReady\<close> becomes true, React renders again and runs the effects whose
    dependencies have changed: the cleanup of the load effect (line 295) and the load
    effect again, the registration of the move handlers (lines 300-321), and
    \<open>renderClusters\<close> (lines 323-327). It happens once: when \<open>mapReady\<close> is true
    already, nothing changes;
  \<^item> \<open>Teardown\<close>: the view is unmounted; the cleanup of the effects sets the cancellation
    flag (lines 294-296) and takes the move handlers off (lines 317-320), and React
    detaches the refs of the unmounted elements (\<open>toastRef\<close>, and \<open>mapRef\<close> through the
    ref callback of line 357);
  \<^item> \<open>MoveEnd\<close>: the widget reports a new view after a move of its own or of the user;
    the handler of lines 310-315, if it is registered, draws the clusters;
  \<^item> \<open>Render\<close>: \<open>renderClusters\<close> is called from \<open>whenReady\<close> (line 364);
  \<^item> \<open>MarkerClick\<close>: a click on a marker that is on the layer of a mounted map and has a
    handler.
  What \<open>renderClusters\<close> throws in a callback other than \<open>load\<close> is not caught by the
  component: the callback ends there, with the writes it has made.
\<close>

datatype Event =
    FetchSettled "Response option"
  | JsonSettled
  | TimerFired
  | Teardown
  | MoveEnd LeafletMap
  | Render
  | MarkerClick LatLng nat nat
  | MapReady LeafletMap
  | EarlierFetchSettled "Response option"
  | EarlierJsonSettled
  | EarlierTimerFired

fun step :: "Nearness \<Rightarrow> Expansion \<Rightarrow> Session \<Rightarrow> Event \<Rightarrow> Session" where
  "step near expansion s (FetchSettled r) =
     (if pc s = AwaitFetch then fetchSettled r s else s)"
| "step near expansion s JsonSettled =
     (case pc s of AwaitJson response \<Rightarrow> jsonSettled near response s | _ \<Rightarrow> s)"
| "step near expansion s TimerFired =
     (if pc s = AwaitTimer then loopHead s else s)"
| "step near expansion s Teardown =
     s\<lparr>cancelledRef := True, toastRef := None, mapRef := None, handlers := False\<rparr>"
| "step near expansion s (MoveEnd m') =
     (case mapRef s of
        None \<Rightarrow> s
      | Some m \<Rightarrow> (if handlers s then renderClusters near (s\<lparr>mapRef := Some m'\<rparr>)
                   else s\<lparr>mapRef := Some m'\<rparr>))"
| "step near expansion s Render = renderClusters near s"
| "step near expansion s (MarkerClick place count clusterId) =
     (case (mapRef s, clusterLayerRef s) of
        (Some m, Some layers) \<Rightarrow>
          (if ClusterMarker place count (Some clusterId) \<in> set layers
           then clusterClick expansion place clusterId s else s)
      | _ \<Rightarrow> s)"
| "step near expansion s (MapReady m) =
     (if mapReady s then s
      else
        (let s1 = s\<lparr>mapRef := Some m, cancelledRef := True\<rparr>;
             s2 = startLoad s1;
             s3 = s2\<lparr>mapReady := True, handlers := True\<rparr>
         in renderClusters near s3))"
| "step near expansion s (EarlierFetchSettled r) =
     (if earlierPc s = AwaitFetch then swapLoops (fetchSettled r (swapLoops s)) else s)"
| "step near expansion s EarlierJsonSettled =
     (case earlierPc s of
        AwaitJson response \<Rightarrow> swapLoops (jsonSettled near response (swapLoops s))
      | _ \<Rightarrow> s)"
| "step near expansion s EarlierTimerFired =
     (if earlierPc s = AwaitTimer then swapLoops (loopHead (swapLoops s)) else s)"

definition run :: "Nearness \<Rightarrow> Expansion \<Rightarrow> Event list \<Rightarrow> Session \<Rightarrow> Session" where
  "run near expansion events s = foldl (step near expansion) s events"

section \<open>The route: cursors, the query and the handler\<close>

text \<open>
  \<open>Number(s)\<close> of a string: the empty string is \<open>0\<close>, a run of decimal digits with an
  optional sign is that integer, and a string that is no numeric literal is \<open>NaN\<close>
  (\<open>None\<close>). The literals with a fraction, an exponent or a radix prefix, \<open>Infinity\<close>
  and surrounding white space, which \<open>Number\<close> reads as well, never reach the route from
  this client and are not modelled: they read as \<open>NaN\<close> here.
\<close>

definition isDigit :: "char \<Rightarrow> bool" where
  "isDigit c = (48 \<le> (of_char c :: nat) \<and> (of_char c :: nat) \<le> 57)"

definition digitValue :: "char \<Rightarrow> nat" where
  "digitValue c = of_char c - 48"

definition parseDigits :: "string \<Rightarrow> nat option" where
  "parseDigits s =
     (if s \<noteq> [] \<and> list_all isDigit s
      then Some (foldl (\<lambda>a c. 10 * a + digitValue c) 0 s) else None)"

definition jsNumber :: "string \<Rightarrow> int option" where
  "jsNumber s =
     (case s of
        [] \<Rightarrow> Some 0
      | c # cs \<Rightarrow>
          (if c = CHR ''-'' then map_option (\<lambda>n. - int n) (parseDigits cs)
           else if c = CHR ''+'' then map_option int (parseDigits cs)
           else map_option int (parseDigits s)))"

text \<open>
  \<open>Buffer.from(s, "utf-8").toString("base64url")\<close>: every three bytes give four
  characters of the URL-safe alphabet, a rest of one or two bytes gives two or three,
  and there is no padding. The strings concerned are ASCII, where a character is its
  byte.
\<close>

definition sextetChar :: "nat \<Rightarrow> char" where
  "sextetChar n =
     (if n < 26 then char_of (65 + n)
      else if n < 52 then char_of (71 + n)
      else if n < 62 then char_of (n - 4)
      else if n = 62 then CHR ''-'' else CHR ''_'')"

fun encodeGroups :: "nat list \<Rightarrow> nat list" where
  "encodeGroups (a # b # c # bytes) =
     [a div 4, (a mod 4) * 16 + b div 16, (b mod 16) * 4 + c div 64, c mod 64]
     @ encodeGroups bytes"
| "encodeGroups [a, b] = [a div 4, (a mod 4) * 16 + b div 16, (b mod 16) * 4]"
| "encodeGroups [a] = [a div 4, (a mod 4) * 16]"
| "encodeGroups [] = []"

definition toBase64url :: "string \<Rightarrow> string" where
  "toBase64url s = map sextetChar (encodeGroups (map of_char s))"

text \<open>
  \<open>Buffer.from(s, "base64url").toString("utf-8")\<close>: Node's decoder reads both
  alphabets, passes over a character of neither, stops at \<open>=\<close>, and turns every four
  characters into three bytes, a rest of two or three into one or two.
\<close>

definition unbase64 :: "char \<Rightarrow> nat option" where
  "unbase64 c =
     (let n = (of_char c :: nat)
      in if 65 \<le> n \<and> n \<le> 90 then Some (n - 65)
         else if 97 \<le> n \<and> n \<le> 122 then Some (n - 71)
         else if 48 \<le> n \<and> n \<le> 57 then Some (n + 4)
         else if c = CHR ''-'' \<or> c = CHR ''+'' then Some 62
         else if c = CHR ''_'' \<or> c = CHR ''/'' then Some 63
         else None)"

fun decodeGroups :: "nat list \<Rightarrow> nat list" where
  "decodeGroups (p # q # r # s # sextets) =
     [p * 4 + q div 16, (q mod 16) * 16 + r div 4, (r mod 4) * 64 + s] @ decodeGroups sextets"
| "decodeGroups [p, q, r] = [p * 4 + q div 16, (q mod 16) * 16 + r div 4]"
| "decodeGroups [p, q] = [p * 4 + q div 16]"
| "decodeGroups [p] = []"
| "decodeGroups [] = []"

definition fromBase64url :: "string \<Rightarrow> string" where
  "fromBase64url s =
     map char_of (decodeGroups (List.map_filter unbase64 (takeWhile (\<lambda>c. c \<noteq> CHR ''='') s)))"

text \<open>\<open>encodeCursor\<close> and \<open>decodeCursor\<close> (route.ts, lines 26-32).\<close>

definition encodeCursor :: "int \<Rightarrow> string" where
  "encodeCursor v = toBase64url (jsString v)"

definition decodeCursor :: "string \<Rightarrow> int option" where
  "decodeCursor v = jsNumber (fromBase64url v)"








section \<open>A session served by the route\<close>


section \<open>Notions the properties are stated with\<close>

text \<open>A feature can be indexed if its representative point can be computed.\<close>

definition indexable :: "Feature \<Rightarrow> bool" where
  "indexable feature = (geometryToLatLng (geometry feature) \<noteq> None)"

text \<open>A feature has a non-empty geometry if its geometry is there, is accepted by
  \<open>L.geoJSON\<close> and has at least one coordinate.\<close>

definition nonEmptyGeometry :: "Feature \<Rightarrow> bool" where
  "nonEmptyGeometry feature =
     (case geometry feature of
        None \<Rightarrow> False
      | Some geom \<Rightarrow> (case geoJSON geom of None \<Rightarrow> False | Some layer \<Rightarrow> layer \<noteq> []))"

text \<open>The point that \<open>addCollection\<close> pushes for an indexable feature under the id \<open>i\<close>.\<close>

definition pointOf :: "nat \<Rightarrow> Feature \<Rightarrow> ClusterPointFeature" where
  "pointOf i feature =
     (case geometryToLatLng (geometry feature) of
        Some c \<Rightarrow> \<lparr>coordinates = (lng c, lat c), pointId = i\<rparr>
      | None \<Rightarrow> \<lparr>coordinates = (0, 0), pointId = i\<rparr>)"

text \<open>The points of a batch when the next free id is \<open>n\<close>: one for each indexable
  feature, in the order of the batch, under the ids from \<open>n\<close> on.\<close>

definition newPointsOf :: "nat \<Rightarrow> Feature list \<Rightarrow> ClusterPointFeature list" where
  "newPointsOf n collection =
     map (\<lambda>(i, f). pointOf i f)
       (zip [n ..< n + length (filter indexable collection)] (filter indexable collection))"

text \<open>
  The invariant of the Geometry Indexer: the ids handed out so far are \<open>1, 2, ...\<close> up
  to the next free one, in the order of the points buffer; the feature table holds
  exactly these ids; each point is the representative point of the feature stored under
  its id; and an index instance, once there is one, holds the points buffer.
\<close>

definition indexed :: "Session \<Rightarrow> bool" where
  "indexed s \<longleftrightarrow>
     0 < nextFeatureIdRef s \<and>
     map pointId (pointsRef s) = [1 ..< nextFeatureIdRef s] \<and>
     dom (featureMapRef s) = {1 ..< nextFeatureIdRef s} \<and>
     (\<forall>p \<in> set (pointsRef s). \<exists>feature. featureMapRef s (pointId p) = Some feature \<and>
         indexable feature \<and> p = pointOf (pointId p) feature) \<and>
     (\<forall>index. superclusterRef s = Some index \<longrightarrow> loaded index = pointsRef s)"

text \<open>What a render pass never writes: the state, the registers of the two loops, the
  network log, the toast, and the data of the Geometry Indexer.\<close>

definition keeps :: "Session \<Rightarrow> Session \<Rightarrow> bool" where
  "keeps s t \<longleftrightarrow>
     pc t = pc s \<and> totalFetched t = totalFetched s \<and> hasMore t = hasMore s \<and>
     isLoading t = isLoading s \<and> cancelledRef t = cancelledRef s \<and> network t = network s \<and>
     cursor t = cursor s \<and> toastRef t = toastRef s \<and> mapReady t = mapReady s \<and>
     handlers t = handlers s \<and> earlierPc t = earlierPc s \<and> earlierCursor t = earlierCursor s \<and>
     earlierReady t = earlierReady s \<and> featureMapRef t = featureMapRef s \<and>
     pointsRef t = pointsRef s \<and> nextFeatureIdRef t = nextFeatureIdRef s \<and>
     boundsRef t = boundsRef s"

text \<open>The widget of the session animates a fit (or there is no widget).\<close>

definition calm :: "Session \<Rightarrow> bool" where
  "calm s = (case mapRef s of None \<Rightarrow> True | Some m \<Rightarrow> resetsTo m = None)"

text \<open>The notifications on the screen: the messages of the toast, none without one.\<close>

definition notifications :: "Session \<Rightarrow> ToastMessage list" where
  "notifications s = (case toastRef s of None \<Rightarrow> [] | Some shown \<Rightarrow> shown)"

text \<open>How often the map has been asked to fit bounds.\<close>

definition isFit :: "ViewRequest \<Rightarrow> bool" where
  "isFit r = (case r of FitBounds b \<Rightarrow> True | FlyTo place z \<Rightarrow> False)"

definition fits :: "Session \<Rightarrow> nat" where
  "fits s = length (filter isFit (viewRequests s))"

text \<open>A response of the route with a page: status 200 and an \<open>ApiResponse\<close>.\<close>

definition page :: "Feature list \<Rightarrow> string option \<Rightarrow> Response" where
  "page fs next = \<lparr>ok = True, status = 200, body = Payload \<lparr>features = fs, nextCursor = next\<rparr>\<rparr>"

section \<open>Sample inputs\<close>

text \<open>A batch of three features: a point, a feature without geometry, and a line.\<close>

definition sampleBatch :: "Feature list" where
  "sampleBatch =
     [\<lparr>fid = 10, cod_imovel = ''a'', geometry = Some (Point (1, 2))\<rparr>,
      \<lparr>fid = 11, cod_imovel = ''b'', geometry = None\<rparr>,
      \<lparr>fid = 12, cod_imovel = ''c'', geometry = Some (LineString [(3, 4), (5, 8)])\<rparr>]"

text \<open>Two extreme notions of nearness, and a lookup that knows no cluster.\<close>

definition neverNear :: Nearness where
  "neverNear z p q = False"


definition noCluster :: Expansion where
  "noCluster index clusterId = Inl ''No cluster with the specified id.''"

text \<open>A map showing the initial view of the component, which animates when it is asked
  to fit bounds.\<close>

definition sampleMap :: LeafletMap where
  "sampleMap =
     \<lparr>viewCenter = \<lparr>lat = -14, lng = -52\<rparr>, zoom = 5,
      viewport = (\<lparr>lat = -35, lng = -75\<rparr>, \<lparr>lat = 6, lng = -30\<rparr>),
      resetsTo = None, stackDepth = 860\<rparr>"

text \<open>
  The same map where the widget does not animate the fit (the features lie far from
  the initial view): it jumps to a view around them and fires its move events at once.
\<close>

definition rigidMap :: LeafletMap where
  "rigidMap =
     \<lparr>viewCenter = \<lparr>lat = -14, lng = -52\<rparr>, zoom = 5,
      viewport = (\<lparr>lat = -35, lng = -75\<rparr>, \<lparr>lat = 6, lng = -30\<rparr>),
      resetsTo = Some (\<lparr>lat = 4, lng = 5 / 2\<rparr>, 7, (\<lparr>lat = 1, lng = 0\<rparr>, \<lparr>lat = 7, lng = 5\<rparr>)),
      stackDepth = 860\<rparr>"




text \<open>The request that \<open>load\<close> sends for a cursor.\<close>

definition requestFor :: "string option \<Rightarrow> Request" where
  "requestFor cur = \<lparr>limitParam = Some ''5000'', cursorParam = (if truthy cur then cur else None)\<rparr>"

text \<open>The two pages of a small dataset: three features and a cursor, then two features
  and no cursor.\<close>

definition firstPage :: Response where
  "firstPage = page sampleBatch (Some ''A'')"

definition lastPage :: Response where
  "lastPage = page (take 2 sampleBatch) None"

text \<open>
  A mount as it happens: the effect has run at the first render, the map arrives and the
  effect runs again; then each of the two loops is served the two pages.
\<close>

definition mountThenTwoPages :: "Event list" where
  "mountThenTwoPages =
     [MapReady sampleMap,
      EarlierFetchSettled (Some firstPage), EarlierJsonSettled,
      FetchSettled (Some firstPage), JsonSettled,
      EarlierTimerFired, TimerFired,
      EarlierFetchSettled (Some lastPage), EarlierJsonSettled,
      FetchSettled (Some lastPage), JsonSettled]"

text \<open>A response of the route that reports a failure.\<close>

definition failure :: Response where
  "failure = \<lparr>ok = False, status = 500, body = OtherJson\<rparr>"




section \<open>The Geometry Indexer\<close>

lemma indexFeature_skip:
  "\<not> indexable f \<Longrightarrow> indexFeature acc f = acc"
  by (auto simp: indexFeature_def indexable_def split: prod.splits)

lemma indexFeature_keep:
  "indexable f \<Longrightarrow> indexFeature (s, nps, nb) f =
     (s\<lparr>nextFeatureIdRef := nextFeatureIdRef s + 1,
        featureMapRef := (featureMapRef s)(nextFeatureIdRef s \<mapsto> f)\<rparr>,
      nps @ [pointOf (nextFeatureIdRef s) f],
      extendBounds nb (the (geometryToLatLng (geometry f))))"
  by (auto simp: indexFeature_def indexable_def pointOf_def Let_def split: option.splits)

lemma foldl_indexFeature:
  "foldl indexFeature (s, nps, nb) collection =
     (s\<lparr>nextFeatureIdRef := nextFeatureIdRef s + length (filter indexable collection),
        featureMapRef := (\<lambda>k. if nextFeatureIdRef s \<le> k \<and> k < nextFeatureIdRef s + length (filter indexable collection)
                              then Some (filter indexable collection ! (k - nextFeatureIdRef s))
                              else featureMapRef s k)\<rparr>,
      nps @ map (\<lambda>(i, f). pointOf i f)
              (zip [nextFeatureIdRef s ..< nextFeatureIdRef s + length (filter indexable collection)]
                   (filter indexable collection)),
      foldl extendBounds nb (map (\<lambda>f. the (geometryToLatLng (geometry f))) (filter indexable collection)))"
proof (induction collection arbitrary: s nps nb)
  case Nil
  have "(\<lambda>k. if nextFeatureIdRef s \<le> k \<and> k < nextFeatureIdRef s
              then Some (filter indexable [] ! (k - nextFeatureIdRef s)) else featureMapRef s k) = featureMapRef s"
    by (rule ext) auto
  then show ?case by (simp cong: if_cong)
next
  case (Cons f fs)
  show ?case
  proof (cases "indexable f")
    case False
    then show ?thesis using Cons.IH[of s nps nb] by (simp add: indexFeature_skip cong: if_cong)
  next
    case True
    let ?kept = "filter indexable fs"
    let ?n = "nextFeatureIdRef s"
    have upt: "[?n ..< Suc (?n + length ?kept)] = ?n # [Suc ?n ..< Suc (?n + length ?kept)]"
      by (simp add: upt_conv_Cons del: upt_Suc)
    have fm: "(\<lambda>k. if Suc ?n \<le> k \<and> k < Suc (?n + length ?kept) then Some (?kept ! (k - Suc ?n))
                    else if k = ?n then Some f else featureMapRef s k)
            = (\<lambda>k. if ?n \<le> k \<and> k < Suc (?n + length ?kept) then Some ((f # ?kept) ! (k - ?n))
                    else featureMapRef s k)"
      by (rule ext) (auto simp: nth_Cons' Suc_diff_Suc)
    show ?thesis
      using True Cons.IH[of "s\<lparr>nextFeatureIdRef := ?n + 1,
        featureMapRef := (featureMapRef s)(?n \<mapsto> f)\<rparr>" "nps @ [pointOf ?n f]"
        "extendBounds nb (the (geometryToLatLng (geometry f)))"]
      by (simp add: indexFeature_keep upt fm del: upt_Suc cong: if_cong)
  qed
qed


lemma keeps_refl: "keeps s s"
  by (simp add: keeps_def)

lemma keeps_trans: "keeps s t \<Longrightarrow> keeps t u \<Longrightarrow> keeps s u"
  by (simp add: keeps_def)

lemma keeps_update:
  "keeps s (t\<lparr>viewRequests := v\<rparr>) = keeps s t"
  "keeps s (t\<lparr>shouldFitBoundsRef := f\<rparr>) = keeps s t"
  "keeps s (t\<lparr>mapRef := m\<rparr>) = keeps s t"
  "keeps s (t\<lparr>clusterLayerRef := l\<rparr>) = keeps s t"
  "keeps s (t\<lparr>superclusterRef := i\<rparr>) = keeps s t"
  "keeps (t\<lparr>viewRequests := v\<rparr>) u = keeps t u"
  "keeps (t\<lparr>shouldFitBoundsRef := f\<rparr>) u = keeps t u"
  "keeps (t\<lparr>mapRef := m\<rparr>) u = keeps t u"
  "keeps (t\<lparr>clusterLayerRef := l\<rparr>) u = keeps t u"
  "keeps (t\<lparr>superclusterRef := i\<rparr>) u = keeps t u"
  by (simp_all add: keeps_def)

lemma drawPass_keeps: "keeps s (fst (drawPass near s))"
  by (simp add: drawPass_def Let_def drawClusters_def getSupercluster_def ensureClusterLayer_def
      keeps_def split: option.splits)

lemma drawPass_frame:
  "mapRef (fst (drawPass near s)) = mapRef s"
  "shouldFitBoundsRef (fst (drawPass near s)) = shouldFitBoundsRef s"
  "viewRequests (fst (drawPass near s)) = viewRequests s"
  "superclusterRef (fst (drawPass near s)) = superclusterRef (getSupercluster s)"
  by (simp_all add: drawPass_def Let_def drawClusters_def getSupercluster_def
      ensureClusterLayer_def split: option.splits)

text \<open>The fit is due exactly if there are a map, points and valid bounds and the flag is
  set.\<close>

lemma drawPass_due:
  "(snd (drawPass near s) = Some (b, m)) =
     (mapRef s = Some m \<and> pointsRef s \<noteq> [] \<and> boundsRef s = Some (Some b) \<and> shouldFitBoundsRef s)"
  by (auto simp: drawPass_def Let_def drawClusters_def getSupercluster_def
      ensureClusterLayer_def split: option.splits)


lemma renderFrame_keeps: "keeps s (fst (renderFrame k near s))"
proof (induction k arbitrary: s)
  case 0
  show ?case by (simp add: keeps_refl)
next
  case (Suc k)
  obtain t fit where d: "drawPass near s = (t, fit)" by (cases "drawPass near s") auto
  have t: "keeps s t" using drawPass_keeps[of s near] d by simp
  have ih: "keeps s x"
    if "renderFrame k near (t\<lparr>viewRequests := v, mapRef := m\<rparr>) = (x, b)" for v m x b
    using Suc[of "t\<lparr>viewRequests := v, mapRef := m\<rparr>"] t that
    by (auto intro: keeps_trans simp: keeps_update)
  show ?case
    using t by (auto simp: d Let_def keeps_update split: option.splits prod.splits dest: ih)
qed

lemma fst_renderClustersCall [simp]: "fst (renderClustersCall near s) = renderClusters near s"
  by (simp add: renderClusters_def)

lemma snd_renderClustersCall [simp]:
  "snd (renderClustersCall near s) = renderClustersThrows near s"
  by (simp add: renderClustersThrows_def)

lemma renderClusters_keeps: "keeps s (renderClusters near s)"
  unfolding renderClusters_def renderClustersCall_def by (rule renderFrame_keeps)

lemma renderClusters_frame:
  "pc (renderClusters near s) = pc s"
  "totalFetched (renderClusters near s) = totalFetched s"
  "hasMore (renderClusters near s) = hasMore s"
  "isLoading (renderClusters near s) = isLoading s"
  "cancelledRef (renderClusters near s) = cancelledRef s"
  "network (renderClusters near s) = network s"
  "cursor (renderClusters near s) = cursor s"
  "toastRef (renderClusters near s) = toastRef s"
  "mapReady (renderClusters near s) = mapReady s"
  "handlers (renderClusters near s) = handlers s"
  "earlierPc (renderClusters near s) = earlierPc s"
  "earlierCursor (renderClusters near s) = earlierCursor s"
  "earlierReady (renderClusters near s) = earlierReady s"
  "featureMapRef (renderClusters near s) = featureMapRef s"
  "pointsRef (renderClusters near s) = pointsRef s"
  "nextFeatureIdRef (renderClusters near s) = nextFeatureIdRef s"
  "boundsRef (renderClusters near s) = boundsRef s"
  using renderClusters_keeps[of s near] by (simp_all add: keeps_def)

lemma getSupercluster_Some:
  "superclusterRef s \<noteq> None \<Longrightarrow> getSupercluster s = s"
  by (simp add: getSupercluster_def)

lemma getSupercluster_created: "superclusterRef (getSupercluster s) \<noteq> None"
  by (simp add: getSupercluster_def Let_def)

lemma renderFrame_index_kept:
  "superclusterRef s \<noteq> None \<Longrightarrow> superclusterRef (fst (renderFrame k near s)) = superclusterRef s"
proof (induction k arbitrary: s)
  case 0
  show ?case by simp
next
  case (Suc k)
  obtain t fit where d: "drawPass near s = (t, fit)" by (cases "drawPass near s") auto
  have t: "superclusterRef t = superclusterRef s"
    using drawPass_frame(4)[of near s] d Suc.prems by (simp add: getSupercluster_Some)
  have ih: "superclusterRef x = superclusterRef s"
    if "renderFrame k near (t\<lparr>viewRequests := v, mapRef := m\<rparr>) = (x, b)" for v m x b
    using Suc.IH[of "t\<lparr>viewRequests := v, mapRef := m\<rparr>"] t Suc.prems that by simp
  show ?case
    using t by (auto simp: d Let_def split: option.splits prod.splits dest: ih)
qed

lemma renderClusters_index:
  "superclusterRef (renderClusters near s) = superclusterRef (getSupercluster s)"
proof -
  obtain t fit where d: "drawPass near s = (t, fit)" by (cases "drawPass near s") auto
  have t: "superclusterRef t = superclusterRef (getSupercluster s)"
    using drawPass_frame(4)[of near s] d by simp
  have n: "superclusterRef x = superclusterRef (getSupercluster s)"
    if "renderFrame k near (t\<lparr>viewRequests := v, mapRef := m\<rparr>) = (x, b)" for k v m x b
    using renderFrame_index_kept[of "t\<lparr>viewRequests := v, mapRef := m\<rparr>" k near] t that
      getSupercluster_created[of s] by simp
  show ?thesis
    using t
    by (auto simp: renderClusters_def renderClustersCall_def d Let_def
        split: option.splits prod.splits dest: n)
qed

text \<open>A render pass returns if no handler is registered, if there is no map, and if the
  widget animates.\<close>

lemma renderFrame_returns:
  assumes "\<not> handlers s \<or> mapRef s = None \<or> (\<exists>m. mapRef s = Some m \<and> resetsTo m = None)"
  shows "\<not> snd (renderFrame (Suc k) near s)"
proof -
  obtain t fit where d: "drawPass near s = (t, fit)" by (cases "drawPass near s") auto
  have h: "handlers t = handlers s" using drawPass_keeps[of s near] d by (simp add: keeps_def)
  have m: "fit = Some (b, m) \<Longrightarrow> mapRef s = Some m" for b m
    using drawPass_due[of near s b m] d by simp
  show ?thesis
    using assms h by (auto simp: d Let_def split: option.splits prod.splits dest: m)
qed

lemma renderClusters_returns:
  assumes "\<not> handlers s \<or> mapRef s = None \<or> (\<exists>m. mapRef s = Some m \<and> resetsTo m = None)"
  shows "\<not> renderClustersThrows near s"
  unfolding renderClustersThrows_def renderClustersCall_def using assms by (rule renderFrame_returns)

text \<open>
  With a handler registered on a widget that does not animate, a render pass whose fit is
  due does not return: every frame draws, calls \<open>fitBounds\<close> and is entered again from
  inside that call, until the stack is exhausted. The flag is still set, and \<open>fitBounds\<close>
  has been called once in every frame.
\<close>

lemma showing_resetsTo: "resetsTo (showing v m) = resetsTo m"
  by (simp add: showing_def split: prod.splits)

lemma showing_stackDepth: "stackDepth (showing v m) = stackDepth m"
  by (simp add: showing_def split: prod.splits)

lemma renderFrame_overflows:
  assumes "handlers s" "mapRef s = Some m" "resetsTo m = Some v" "pointsRef s \<noteq> []"
    "boundsRef s = Some (Some b)" "shouldFitBoundsRef s"
  shows "snd (renderFrame k near s) \<and> shouldFitBoundsRef (fst (renderFrame k near s)) \<and>
     viewRequests (fst (renderFrame k near s)) = viewRequests s @ replicate k (FitBounds b)"
  using assms
proof (induction k arbitrary: s m)
  case 0
  then show ?case by simp
next
  case (Suc k)
  obtain t fit where d: "drawPass near s = (t, fit)" by (cases "drawPass near s") auto
  have "snd (drawPass near s) = Some (b, m)" using Suc.prems by (simp add: drawPass_due)
  then have fit: "fit = Some (b, m)" using d by simp
  have t: "shouldFitBoundsRef t" "viewRequests t = viewRequests s" "handlers t"
      "boundsRef t = Some (Some b)" "pointsRef t \<noteq> []"
    using drawPass_frame[of near s] drawPass_keeps[of s near] d Suc.prems
    by (simp_all add: keeps_def)
  let ?s5 = "t\<lparr>viewRequests := viewRequests t @ [FitBounds b], mapRef := Some (showing v m)\<rparr>"
  have ih: "snd (renderFrame k near ?s5) \<and> shouldFitBoundsRef (fst (renderFrame k near ?s5)) \<and>
     viewRequests (fst (renderFrame k near ?s5)) = viewRequests ?s5 @ replicate k (FitBounds b)"
    by (rule Suc.IH[where m = "showing v m"]) (simp_all add: t showing_resetsTo Suc.prems)
  obtain s6 threw where n: "renderFrame k near ?s5 = (s6, threw)"
    by (cases "renderFrame k near ?s5") auto
  from ih n have s6: "threw" "shouldFitBoundsRef s6"
      "viewRequests s6 = viewRequests s @ FitBounds b # replicate k (FitBounds b)"
    by (simp_all add: t)
  have "renderFrame (Suc k) near s = (s6, True)"
    using Suc.prems(3) t(3) n s6(1) by (simp add: d fit Let_def)
  then show ?case using s6 by simp
qed

text \<open>A render pass that returns has asked for the fit once if it was due, clearing the
  flag, and not at all otherwise.\<close>

lemma renderFrame_returned:
  assumes "\<not> snd (renderFrame k near s)"
  shows "(mapRef s \<noteq> None \<and> pointsRef s \<noteq> [] \<and> (\<exists>b. boundsRef s = Some (Some b)) \<and>
             shouldFitBoundsRef s \<longrightarrow>
            \<not> shouldFitBoundsRef (fst (renderFrame k near s)) \<and>
            viewRequests (fst (renderFrame k near s)) =
              viewRequests s @ [FitBounds (the (the (boundsRef s)))]) \<and>
         (\<not> (mapRef s \<noteq> None \<and> pointsRef s \<noteq> [] \<and> (\<exists>b. boundsRef s = Some (Some b)) \<and>
             shouldFitBoundsRef s) \<longrightarrow>
            shouldFitBoundsRef (fst (renderFrame k near s)) = shouldFitBoundsRef s \<and>
            viewRequests (fst (renderFrame k near s)) = viewRequests s)"
proof (cases k)
  case 0
  with assms show ?thesis by simp
next
  case (Suc j)
  obtain t fit where d: "drawPass near s = (t, fit)" by (cases "drawPass near s") auto
  have t: "shouldFitBoundsRef t = shouldFitBoundsRef s" "viewRequests t = viewRequests s"
      "mapRef t = mapRef s" "boundsRef t = boundsRef s" "pointsRef t = pointsRef s"
    using drawPass_frame[of near s] drawPass_keeps[of s near] d by (simp_all add: keeps_def)
  show ?thesis
  proof (cases fit)
    case None
    have "\<not> (mapRef s \<noteq> None \<and> pointsRef s \<noteq> [] \<and> (\<exists>b. boundsRef s = Some (Some b)) \<and>
             shouldFitBoundsRef s)"
    proof
      assume "mapRef s \<noteq> None \<and> pointsRef s \<noteq> [] \<and> (\<exists>b. boundsRef s = Some (Some b)) \<and>
             shouldFitBoundsRef s"
      then obtain m b where "mapRef s = Some m" "pointsRef s \<noteq> []" "boundsRef s = Some (Some b)"
          "shouldFitBoundsRef s" by auto
      then have "snd (drawPass near s) = Some (b, m)" by (simp add: drawPass_due)
      with d None show False by simp
    qed
    then show ?thesis using None t by (simp add: Suc d)
  next
    case (Some bm)
    obtain b m where bm: "bm = (b, m)" by (cases bm) auto
    have due: "mapRef s = Some m" "pointsRef s \<noteq> []" "boundsRef s = Some (Some b)"
        "shouldFitBoundsRef s"
      using drawPass_due[of near s b m] d Some bm by simp_all
    show ?thesis
    proof (cases "resetsTo m")
      case None
      then show ?thesis using Some bm due t by (simp add: Suc d Let_def)
    next
      case v: (Some v)
      let ?s5 = "t\<lparr>viewRequests := viewRequests t @ [FitBounds b], mapRef := Some (showing v m)\<rparr>"
      show ?thesis
      proof (cases "handlers t")
        case False
        then show ?thesis using v Some bm due t by (simp add: Suc d Let_def)
      next
        case True
        have "snd (renderFrame j near ?s5)"
          using renderFrame_overflows[of ?s5 "showing v m" v b j near] True v due t
          by (simp add: showing_resetsTo)
        then obtain s6 where "renderFrame j near ?s5 = (s6, True)"
          by (cases "renderFrame j near ?s5") auto
        then have "snd (renderFrame (Suc j) near s)"
          using v Some bm True by (simp add: d Let_def)
        with assms Suc show ?thesis by simp
      qed
    qed
  qed
qed

lemma getSupercluster_index:
  "superclusterRef (getSupercluster s) =
     (case superclusterRef s of
        None \<Rightarrow> Some (newSupercluster\<lparr>loaded := pointsRef s\<rparr>)
      | Some index \<Rightarrow> Some index)"
  by (auto simp: getSupercluster_def load_def newSupercluster_def Let_def split: option.splits)

lemma getSupercluster_frame:
  "pc (getSupercluster s) = pc s"
  "totalFetched (getSupercluster s) = totalFetched s"
  "hasMore (getSupercluster s) = hasMore s"
  "isLoading (getSupercluster s) = isLoading s"
  "cancelledRef (getSupercluster s) = cancelledRef s"
  "network (getSupercluster s) = network s"
  "cursor (getSupercluster s) = cursor s"
  "toastRef (getSupercluster s) = toastRef s"
  "mapRef (getSupercluster s) = mapRef s"
  "mapReady (getSupercluster s) = mapReady s"
  "featureMapRef (getSupercluster s) = featureMapRef s"
  "pointsRef (getSupercluster s) = pointsRef s"
  "nextFeatureIdRef (getSupercluster s) = nextFeatureIdRef s"
  "boundsRef (getSupercluster s) = boundsRef s"
  "shouldFitBoundsRef (getSupercluster s) = shouldFitBoundsRef s"
  "viewRequests (getSupercluster s) = viewRequests s"
  "clusterLayerRef (getSupercluster s) = clusterLayerRef s"
  "handlers (getSupercluster s) = handlers s"
  "earlierPc (getSupercluster s) = earlierPc s"
  "earlierCursor (getSupercluster s) = earlierCursor s"
  "earlierReady (getSupercluster s) = earlierReady s"
  by (auto simp: getSupercluster_def Let_def)

lemma addCollection_frame:
  "pc (addCollection near c s) = pc s"
  "totalFetched (addCollection near c s) = totalFetched s"
  "hasMore (addCollection near c s) = hasMore s"
  "isLoading (addCollection near c s) = isLoading s"
  "cancelledRef (addCollection near c s) = cancelledRef s"
  "network (addCollection near c s) = network s"
  "cursor (addCollection near c s) = cursor s"
  "toastRef (addCollection near c s) = toastRef s"
  "mapReady (addCollection near c s) = mapReady s"
  "handlers (addCollection near c s) = handlers s"
  "earlierPc (addCollection near c s) = earlierPc s"
  "earlierCursor (addCollection near c s) = earlierCursor s"
  "earlierReady (addCollection near c s) = earlierReady s"
  by (simp_all add: addCollection_def addCollectionCall_def foldl_indexFeature Let_def renderClusters_frame
      getSupercluster_frame split: option.splits prod.splits)

lemma addCollection_pointsRef:
  "pointsRef (addCollection near c s) = pointsRef s @ newPointsOf (nextFeatureIdRef s) c"
  by (simp add: addCollection_def addCollectionCall_def foldl_indexFeature Let_def renderClusters_frame
      getSupercluster_frame newPointsOf_def split: option.splits prod.splits)

lemma addCollection_nextFeatureIdRef:
  "nextFeatureIdRef (addCollection near c s) = nextFeatureIdRef s + length (filter indexable c)"
  by (simp add: addCollection_def addCollectionCall_def foldl_indexFeature Let_def renderClusters_frame
      getSupercluster_frame split: option.splits prod.splits)

lemma addCollection_featureMapRef:
  "featureMapRef (addCollection near c s) =
     (\<lambda>k. if nextFeatureIdRef s \<le> k \<and> k < nextFeatureIdRef s + length (filter indexable c)
          then Some (filter indexable c ! (k - nextFeatureIdRef s))
          else featureMapRef s k)"
  by (auto simp add: addCollection_def addCollectionCall_def foldl_indexFeature Let_def renderClusters_frame
      getSupercluster_frame fun_eq_iff split: option.splits prod.splits)


lemma pointId_pointOf: "pointId (pointOf i f) = i"
  by (simp add: pointOf_def split: option.splits)

lemma map_pointId_newPointsOf:
  "map pointId (newPointsOf n c) = [n ..< n + length (filter indexable c)]"
proof -
  have "map pointId (newPointsOf n c) =
        map fst (zip [n ..< n + length (filter indexable c)] (filter indexable c))"
    by (simp add: newPointsOf_def split_def pointId_pointOf comp_def)
  then show ?thesis by simp
qed

lemma length_newPointsOf: "length (newPointsOf n c) = length (filter indexable c)"
  by (simp add: newPointsOf_def)

lemma newPointsOf_member:
  assumes "p \<in> set (newPointsOf n c)"
  shows "\<exists>j < length (filter indexable c). p = pointOf (n + j) (filter indexable c ! j)"
proof -
  from assms obtain i f where "(i, f) \<in> set (zip [n ..< n + length (filter indexable c)] (filter indexable c))"
    and p: "p = pointOf i f"
    by (auto simp: newPointsOf_def)
  then obtain j where "j < length (filter indexable c)" "i = n + j" "f = filter indexable c ! j"
    by (auto simp: set_zip)
  with p show ?thesis by blast
qed

lemma addCollection_index:
  assumes "\<forall>index. superclusterRef s = Some index \<longrightarrow> loaded index = pointsRef s"
    and "superclusterRef (addCollection near c s) = Some index"
  shows "loaded index = pointsRef (addCollection near c s)"
  using assms
  by (auto simp: addCollection_def addCollectionCall_def foldl_indexFeature Let_def renderClusters_frame
      renderClusters_index getSupercluster_frame getSupercluster_index load_def newPointsOf_def
      split: option.splits prod.splits if_splits)


lemma indexed_addCollection:
  assumes "indexed s"
  shows "indexed (addCollection near c s)"
proof -
  let ?s' = "addCollection near c s"
  let ?n = "nextFeatureIdRef s"
  let ?kept = "filter indexable c"
  from assms have n: "0 < ?n" and ids: "map pointId (pointsRef s) = [1 ..< ?n]"
    and dm: "dom (featureMapRef s) = {1 ..< ?n}"
    and pts: "\<forall>p \<in> set (pointsRef s). \<exists>feature. featureMapRef s (pointId p) = Some feature \<and>
         indexable feature \<and> p = pointOf (pointId p) feature"
    and idx: "\<forall>index. superclusterRef s = Some index \<longrightarrow> loaded index = pointsRef s"
    by (simp_all add: indexed_def)
  have 1: "0 < nextFeatureIdRef ?s'"
    using n by (simp add: addCollection_nextFeatureIdRef)
  have "[1 ..< ?n] @ [?n ..< ?n + length ?kept] = [1 ..< ?n + length ?kept]"
    using n upt_add_eq_append[of 1 ?n "length ?kept"] by simp
  then have 2: "map pointId (pointsRef ?s') = [1 ..< nextFeatureIdRef ?s']"
    by (simp add: addCollection_pointsRef addCollection_nextFeatureIdRef ids
        map_pointId_newPointsOf)
  have 3: "dom (featureMapRef ?s') = {1 ..< nextFeatureIdRef ?s'}"
  proof -
    have old: "(featureMapRef s k \<noteq> None) = (1 \<le> k \<and> k < ?n)" for k
    proof -
      have "(k \<in> dom (featureMapRef s)) = (k \<in> {1 ..< ?n})" by (simp only: dm)
      then show ?thesis by (simp add: domIff)
    qed
    show ?thesis
    proof (rule set_eqI)
      fix k
      show "(k \<in> dom (featureMapRef ?s')) = (k \<in> {1 ..< nextFeatureIdRef ?s'})"
        using n old[of k]
        by (auto simp: addCollection_featureMapRef addCollection_nextFeatureIdRef domIff)
    qed
  qed
  have 4: "\<exists>feature. featureMapRef ?s' (pointId p) = Some feature \<and>
         indexable feature \<and> p = pointOf (pointId p) feature"
    if "p \<in> set (pointsRef ?s')" for p
  proof -
    from that consider "p \<in> set (pointsRef s)" | "p \<in> set (newPointsOf ?n c)"
      by (auto simp: addCollection_pointsRef)
    then show ?thesis
    proof cases
      case 1
      then have "pointId p \<in> set (map pointId (pointsRef s))" by simp
      then have "pointId p < ?n" by (simp add: ids)
      with 1 pts show ?thesis by (simp add: addCollection_featureMapRef)
    next
      case 2
      then obtain j where j: "j < length ?kept" and p: "p = pointOf (?n + j) (?kept ! j)"
        using newPointsOf_member by blast
      have "?kept ! j \<in> set ?kept" using j by (rule nth_mem)
      then have "indexable (?kept ! j)" by (simp only: set_filter mem_Collect_eq)
      with j p show ?thesis
        by (simp add: addCollection_featureMapRef pointId_pointOf)
    qed
  qed
  have 5: "\<forall>index. superclusterRef ?s' = Some index \<longrightarrow> loaded index = pointsRef ?s'"
    using addCollection_index[OF idx] by blast
  from 1 2 3 4 5 show ?thesis unfolding indexed_def by blast
qed

lemma indexed_getSupercluster: "indexed s \<Longrightarrow> indexed (getSupercluster s)"
  by (auto simp: indexed_def getSupercluster_frame getSupercluster_index split: option.splits)

lemma indexed_renderClusters: "indexed s \<Longrightarrow> indexed (renderClusters near s)"
  by (auto simp: indexed_def renderClusters_frame renderClusters_index getSupercluster_index
      split: option.splits)


section \<open>The invariant along a session\<close>

lemma indexed_startLoad: "indexed (startLoad s)"
  by (simp add: indexed_def startLoad_def loopHead_def)

lemma catchBlock_frame:
  "pc (catchBlock s) = pc s"
  "network (catchBlock s) = network s"
  "cancelledRef (catchBlock s) = cancelledRef s"
  "featureMapRef (catchBlock s) = featureMapRef s"
  "pointsRef (catchBlock s) = pointsRef s"
  "nextFeatureIdRef (catchBlock s) = nextFeatureIdRef s"
  "superclusterRef (catchBlock s) = superclusterRef s"
  "shouldFitBoundsRef (catchBlock s) = shouldFitBoundsRef s"
  "viewRequests (catchBlock s) = viewRequests s"
  "totalFetched (catchBlock s) = totalFetched s"
  "hasMore (catchBlock s) = hasMore s"
  "mapRef (catchBlock s) = mapRef s"
  "isLoading (catchBlock s) = isLoading s"
  "cursor (catchBlock s) = cursor s"
  "mapReady (catchBlock s) = mapReady s"
  "handlers (catchBlock s) = handlers s"
  "earlierPc (catchBlock s) = earlierPc s"
  "earlierCursor (catchBlock s) = earlierCursor s"
  "earlierReady (catchBlock s) = earlierReady s"
  "clusterLayerRef (catchBlock s) = clusterLayerRef s"
  "boundsRef (catchBlock s) = boundsRef s"
  by (simp_all add: catchBlock_def split: option.splits)

lemma finallyBlock_frame:
  "pc (finallyBlock s) = Returned"
  "network (finallyBlock s) = network s"
  "cancelledRef (finallyBlock s) = cancelledRef s"
  "featureMapRef (finallyBlock s) = featureMapRef s"
  "pointsRef (finallyBlock s) = pointsRef s"
  "nextFeatureIdRef (finallyBlock s) = nextFeatureIdRef s"
  "superclusterRef (finallyBlock s) = superclusterRef s"
  "shouldFitBoundsRef (finallyBlock s) = shouldFitBoundsRef s"
  "viewRequests (finallyBlock s) = viewRequests s"
  "totalFetched (finallyBlock s) = totalFetched s"
  "hasMore (finallyBlock s) = hasMore s"
  "toastRef (finallyBlock s) = toastRef s"
  "mapRef (finallyBlock s) = mapRef s"
  "isLoading (finallyBlock s) = (cancelledRef s \<and> isLoading s)"
  "cursor (finallyBlock s) = cursor s"
  "mapReady (finallyBlock s) = mapReady s"
  "handlers (finallyBlock s) = handlers s"
  "earlierPc (finallyBlock s) = earlierPc s"
  "earlierCursor (finallyBlock s) = earlierCursor s"
  "earlierReady (finallyBlock s) = earlierReady s"
  "clusterLayerRef (finallyBlock s) = clusterLayerRef s"
  "boundsRef (finallyBlock s) = boundsRef s"
  by (simp_all add: finallyBlock_def)

lemma indexed_cong:
  assumes "indexed s"
    and "nextFeatureIdRef t = nextFeatureIdRef s" "pointsRef t = pointsRef s"
    and "featureMapRef t = featureMapRef s" "superclusterRef t = superclusterRef s"
  shows "indexed t"
  using assms by (simp add: indexed_def)

lemma indexed_loopHead: "indexed s \<Longrightarrow> indexed (loopHead s)"
  by (erule indexed_cong) (simp_all add: loopHead_def finallyBlock_frame)

lemma indexed_fetchSettled: "indexed s \<Longrightarrow> indexed (fetchSettled r s)"
  by (erule indexed_cong)
    (simp_all add: fetchSettled_def finallyBlock_frame catchBlock_frame split: option.splits)

lemma indexed_jsonSettled: "indexed s \<Longrightarrow> indexed (jsonSettled near r s)"
proof -
  assume s: "indexed s"
  show ?thesis
  proof (cases "body r")
    case (Payload payload)
    have a: "indexed (addCollection near (features payload) s)"
      using s by (rule indexed_addCollection)
    show ?thesis
      using Payload
      by (auto intro!: indexed_cong[OF a]
          simp: jsonSettled_def Let_def finallyBlock_frame catchBlock_frame)
  next
    case OtherJson
    then show ?thesis
      by (auto intro!: indexed_cong[OF s] simp: jsonSettled_def finallyBlock_frame catchBlock_frame)
  next
    case NotJson
    then show ?thesis
      by (auto intro!: indexed_cong[OF s] simp: jsonSettled_def finallyBlock_frame catchBlock_frame)
  qed
qed

lemma indexed_clusterClick: "indexed s \<Longrightarrow> indexed (clusterClick expansion place cid s)"
  by (erule indexed_cong) (simp_all add: clusterClick_def split: option.splits sum.splits)

lemma indexed_swapLoops: "indexed s \<Longrightarrow> indexed (swapLoops s)"
  by (erule indexed_cong) (simp_all add: swapLoops_def)

lemma indexed_step: "indexed s \<Longrightarrow> indexed (step near expansion s e)"
proof (cases e)
  case (MoveEnd m')
  assume s: "indexed s"
  have "indexed (s\<lparr>mapRef := Some m'\<rparr>)" by (rule indexed_cong[OF s]) simp_all
  with s MoveEnd show ?thesis
    by (auto simp: indexed_renderClusters split: option.splits)
next
  case (MapReady m)
  assume s: "indexed s"
  let ?s2 = "startLoad (s\<lparr>mapRef := Some m, cancelledRef := True\<rparr>)"
  have "indexed ?s2" by (rule indexed_startLoad)
  then have "indexed (?s2\<lparr>mapReady := True, handlers := True\<rparr>)"
    by (rule indexed_cong) simp_all
  then have "indexed (renderClusters near (?s2\<lparr>mapReady := True, handlers := True\<rparr>))"
    by (rule indexed_renderClusters)
  with s MapReady show ?thesis by (simp add: Let_def)
next
  case (EarlierFetchSettled r)
  assume s: "indexed s"
  then have "indexed (swapLoops (fetchSettled r (swapLoops s)))"
    by (intro indexed_swapLoops indexed_fetchSettled)
  with s EarlierFetchSettled show ?thesis by simp
next
  case EarlierJsonSettled
  assume s: "indexed s"
  then have "indexed (swapLoops (jsonSettled near r (swapLoops s)))" for r
    by (intro indexed_swapLoops indexed_jsonSettled)
  with s EarlierJsonSettled show ?thesis by (simp split: LoadPc.splits)
next
  case EarlierTimerFired
  assume s: "indexed s"
  then have "indexed (swapLoops (loopHead (swapLoops s)))"
    by (intro indexed_swapLoops indexed_loopHead)
  with s EarlierTimerFired show ?thesis by simp
qed (auto simp: indexed_loopHead indexed_fetchSettled indexed_jsonSettled indexed_renderClusters
       indexed_clusterClick intro: indexed_cong split: LoadPc.splits option.splits)

lemma indexed_run: "indexed s \<Longrightarrow> indexed (run near expansion events s)"
  unfolding run_def by (induction events arbitrary: s) (simp_all add: indexed_step)


lemma clusterClick_frame:
  "pc (clusterClick expansion place cid s) = pc s"
  "network (clusterClick expansion place cid s) = network s"
  "cancelledRef (clusterClick expansion place cid s) = cancelledRef s"
  "featureMapRef (clusterClick expansion place cid s) = featureMapRef s"
  "pointsRef (clusterClick expansion place cid s) = pointsRef s"
  "superclusterRef (clusterClick expansion place cid s) = superclusterRef s"
  "shouldFitBoundsRef (clusterClick expansion place cid s) = shouldFitBoundsRef s"
  "totalFetched (clusterClick expansion place cid s) = totalFetched s"
  "hasMore (clusterClick expansion place cid s) = hasMore s"
  "toastRef (clusterClick expansion place cid s) = toastRef s"
  "mapRef (clusterClick expansion place cid s) = mapRef s"
  "fits (clusterClick expansion place cid s) = fits s"
  by (simp_all add: clusterClick_def fits_def isFit_def split: option.splits sum.splits)

lemma run_append:
  "run near expansion (xs @ ys) s = run near expansion ys (run near expansion xs s)"
  by (simp add: run_def)


lemma jsString_FETCH_LIMIT: "jsString FETCH_LIMIT = ''5000''"
  by (simp add: jsString_def FETCH_LIMIT_def digits.simps digitChar_def char_of_eq_iff)

text \<open>What the two loops have in common, and what each has of its own.\<close>

lemma swapLoops_fields:
  "pc (swapLoops s) = earlierPc s"
  "cursor (swapLoops s) = earlierCursor s"
  "mapReady (swapLoops s) = earlierReady s"
  "earlierPc (swapLoops s) = pc s"
  "earlierCursor (swapLoops s) = cursor s"
  "earlierReady (swapLoops s) = mapReady s"
  "network (swapLoops s) = network s"
  "cancelledRef (swapLoops s) = cancelledRef s"
  "totalFetched (swapLoops s) = totalFetched s"
  "hasMore (swapLoops s) = hasMore s"
  "isLoading (swapLoops s) = isLoading s"
  "toastRef (swapLoops s) = toastRef s"
  "mapRef (swapLoops s) = mapRef s"
  "handlers (swapLoops s) = handlers s"
  "featureMapRef (swapLoops s) = featureMapRef s"
  "pointsRef (swapLoops s) = pointsRef s"
  "nextFeatureIdRef (swapLoops s) = nextFeatureIdRef s"
  "superclusterRef (swapLoops s) = superclusterRef s"
  "clusterLayerRef (swapLoops s) = clusterLayerRef s"
  "boundsRef (swapLoops s) = boundsRef s"
  "shouldFitBoundsRef (swapLoops s) = shouldFitBoundsRef s"
  "viewRequests (swapLoops s) = viewRequests s"
  by (simp_all add: swapLoops_def)

lemma loopHead_running:
  assumes "\<not> cancelledRef s"
  shows "pc (loopHead s) = AwaitFetch"
    and "network (loopHead s) = network s @ [requestFor (cursor s)]"
    and "cancelledRef (loopHead s) = False"
    and "totalFetched (loopHead s) = totalFetched s"
    and "hasMore (loopHead s) = hasMore s"
    and "isLoading (loopHead s) = isLoading s"
    and "cursor (loopHead s) = cursor s"
    and "mapReady (loopHead s) = mapReady s"
  using assms by (simp_all add: loopHead_def requestFor_def jsString_FETCH_LIMIT)

lemma loopHead_frame:
  "toastRef (loopHead s) = toastRef s"
  "mapRef (loopHead s) = mapRef s"
  "mapReady (loopHead s) = mapReady s"
  "handlers (loopHead s) = handlers s"
  "cursor (loopHead s) = cursor s"
  "earlierPc (loopHead s) = earlierPc s"
  "earlierCursor (loopHead s) = earlierCursor s"
  "earlierReady (loopHead s) = earlierReady s"
  "featureMapRef (loopHead s) = featureMapRef s"
  "pointsRef (loopHead s) = pointsRef s"
  "nextFeatureIdRef (loopHead s) = nextFeatureIdRef s"
  "superclusterRef (loopHead s) = superclusterRef s"
  "clusterLayerRef (loopHead s) = clusterLayerRef s"
  "boundsRef (loopHead s) = boundsRef s"
  "shouldFitBoundsRef (loopHead s) = shouldFitBoundsRef s"
  "viewRequests (loopHead s) = viewRequests s"
  "totalFetched (loopHead s) = totalFetched s"
  "hasMore (loopHead s) = hasMore s"
  "cancelledRef (loopHead s) = cancelledRef s"
  by (simp_all add: loopHead_def finallyBlock_def)

lemma fetchSettled_ok:
  assumes "ok r"
  shows "pc (fetchSettled (Some r) s) = AwaitJson r"
    and "network (fetchSettled (Some r) s) = network s"
    and "cancelledRef (fetchSettled (Some r) s) = cancelledRef s"
    and "totalFetched (fetchSettled (Some r) s) = totalFetched s"
    and "hasMore (fetchSettled (Some r) s) = hasMore s"
    and "isLoading (fetchSettled (Some r) s) = isLoading s"
    and "cursor (fetchSettled (Some r) s) = cursor s"
    and "mapReady (fetchSettled (Some r) s) = mapReady s"
    and "toastRef (fetchSettled (Some r) s) = toastRef s"
  using assms by (simp_all add: fetchSettled_def)

lemma fetchSettled_frame:
  "mapRef (fetchSettled r s) = mapRef s"
  "mapReady (fetchSettled r s) = mapReady s"
  "handlers (fetchSettled r s) = handlers s"
  "cursor (fetchSettled r s) = cursor s"
  "network (fetchSettled r s) = network s"
  "cancelledRef (fetchSettled r s) = cancelledRef s"
  "totalFetched (fetchSettled r s) = totalFetched s"
  "hasMore (fetchSettled r s) = hasMore s"
  "earlierPc (fetchSettled r s) = earlierPc s"
  "earlierCursor (fetchSettled r s) = earlierCursor s"
  "earlierReady (fetchSettled r s) = earlierReady s"
  "featureMapRef (fetchSettled r s) = featureMapRef s"
  "pointsRef (fetchSettled r s) = pointsRef s"
  "nextFeatureIdRef (fetchSettled r s) = nextFeatureIdRef s"
  "superclusterRef (fetchSettled r s) = superclusterRef s"
  "clusterLayerRef (fetchSettled r s) = clusterLayerRef s"
  "boundsRef (fetchSettled r s) = boundsRef s"
  "shouldFitBoundsRef (fetchSettled r s) = shouldFitBoundsRef s"
  "viewRequests (fetchSettled r s) = viewRequests s"
  by (simp_all add: fetchSettled_def finallyBlock_frame catchBlock_frame split: option.splits)

text \<open>When the render pass of \<open>addCollection\<close> returns.\<close>

lemma addCollection_returns:
  assumes "\<not> mapReady s \<or> \<not> handlers s \<or> mapRef s = None \<or>
           (\<exists>m. mapRef s = Some m \<and> resetsTo m = None)"
  shows "\<not> addCollectionThrows near c s"
proof (cases "c = []")
  case True
  then show ?thesis by (simp add: addCollectionThrows_def addCollectionCall_def)
next
  case False
  define nb0 where "nb0 = (case boundsRef (getSupercluster s) of
      Some (Some (sw, ne)) \<Rightarrow> extendBounds (extendBounds None sw) ne | _ \<Rightarrow> None)"
  obtain s2 np nb where f: "foldl indexFeature (getSupercluster s, [], nb0) c = (s2, np, nb)"
    by (cases "foldl indexFeature (getSupercluster s, [], nb0) c") auto
  have s2: "mapRef s2 = mapRef s" "mapReady s2 = mapReady s" "handlers s2 = handlers s"
    using f by (auto simp: foldl_indexFeature getSupercluster_frame)
  define s4 where "s4 = s2\<lparr>pointsRef := pointsRef s2 @ np,
      boundsRef := (if isValid nb then Some nb else boundsRef s2),
      superclusterRef := map_option (load (pointsRef s2 @ np)) (superclusterRef s2)\<rparr>"
  have s4: "mapRef s4 = mapRef s" "mapReady s4 = mapReady s" "handlers s4 = handlers s"
    by (simp_all add: s4_def s2)
  have "addCollectionThrows near c s =
      (if np = [] then False else if mapReady s4 then renderClustersThrows near s4 else False)"
    using False f
    by (simp add: addCollectionThrows_def addCollectionCall_def Let_def nb0_def[symmetric] s4_def)
  moreover have "\<not> renderClustersThrows near s4" if "mapReady s4"
    by (rule renderClusters_returns) (use assms that s4 in auto)
  ultimately show ?thesis by simp
qed

lemma jsonSettled_more:
  assumes "body r = Payload p" and "truthy (nextCursor p)"
    and "\<not> addCollectionThrows near (features p) s"
  shows "pc (jsonSettled near r s) = AwaitTimer"
    and "network (jsonSettled near r s) = network s"
    and "cancelledRef (jsonSettled near r s) = cancelledRef s"
    and "totalFetched (jsonSettled near r s) = totalFetched s + length (features p)"
    and "hasMore (jsonSettled near r s) = hasMore s"
    and "isLoading (jsonSettled near r s) = isLoading s"
    and "cursor (jsonSettled near r s) = nextCursor p"
    and "mapReady (jsonSettled near r s) = mapReady s"
    and "toastRef (jsonSettled near r s) = toastRef s"
  using assms by (simp_all add: jsonSettled_def Let_def addCollection_frame)

lemma jsonSettled_last:
  assumes "body r = Payload p" and "\<not> truthy (nextCursor p)"
    and "\<not> addCollectionThrows near (features p) s"
  shows "pc (jsonSettled near r s) = Returned"
    and "network (jsonSettled near r s) = network s"
    and "cancelledRef (jsonSettled near r s) = cancelledRef s"
    and "totalFetched (jsonSettled near r s) = totalFetched s + length (features p)"
    and "hasMore (jsonSettled near r s) = False"
    and "isLoading (jsonSettled near r s) = (cancelledRef s \<and> isLoading s)"
    and "mapReady (jsonSettled near r s) = mapReady s"
    and "toastRef (jsonSettled near r s) = toastRef s"
    and "cursor (jsonSettled near r s) = cursor s"
  using assms by (simp_all add: jsonSettled_def Let_def addCollection_frame finallyBlock_def)

text \<open>When it throws, the \<open>catch\<close> block follows: the page is not counted, the loop has
  ended, and the message is shown.\<close>

lemma jsonSettled_threw:
  assumes "body r = Payload p" and "addCollectionThrows near (features p) s"
  shows "pc (jsonSettled near r s) = Returned"
    and "network (jsonSettled near r s) = network s"
    and "cancelledRef (jsonSettled near r s) = cancelledRef s"
    and "totalFetched (jsonSettled near r s) = totalFetched s"
    and "hasMore (jsonSettled near r s) = hasMore s"
    and "toastRef (jsonSettled near r s) = map_option (\<lambda>shown. shown @ [loadErrorToast]) (toastRef s)"
  using assms
  by (simp_all add: jsonSettled_def Let_def addCollection_frame finallyBlock_frame
      catchBlock_frame catchBlock_def split: option.splits)

text \<open>Either way the writes of \<open>addCollection\<close> are there.\<close>

lemma jsonSettled_data:
  assumes "body r = Payload p"
  shows "pointsRef (jsonSettled near r s) = pointsRef (addCollection near (features p) s)"
    and "featureMapRef (jsonSettled near r s) = featureMapRef (addCollection near (features p) s)"
    and "nextFeatureIdRef (jsonSettled near r s) = nextFeatureIdRef (addCollection near (features p) s)"
    and "superclusterRef (jsonSettled near r s) = superclusterRef (addCollection near (features p) s)"
    and "clusterLayerRef (jsonSettled near r s) = clusterLayerRef (addCollection near (features p) s)"
    and "boundsRef (jsonSettled near r s) = boundsRef (addCollection near (features p) s)"
    and "mapRef (jsonSettled near r s) = mapRef (addCollection near (features p) s)"
    and "shouldFitBoundsRef (jsonSettled near r s) = shouldFitBoundsRef (addCollection near (features p) s)"
    and "viewRequests (jsonSettled near r s) = viewRequests (addCollection near (features p) s)"
  using assms
  by (simp_all add: jsonSettled_def Let_def finallyBlock_frame catchBlock_frame)

lemma jsonSettled_frame:
  "handlers (jsonSettled near r s) = handlers s"
  "mapReady (jsonSettled near r s) = mapReady s"
  "network (jsonSettled near r s) = network s"
  "cancelledRef (jsonSettled near r s) = cancelledRef s"
  "earlierPc (jsonSettled near r s) = earlierPc s"
  "earlierCursor (jsonSettled near r s) = earlierCursor s"
  "earlierReady (jsonSettled near r s) = earlierReady s"
  by (simp_all add: jsonSettled_def Let_def addCollection_frame finallyBlock_frame
      catchBlock_frame split: Body.splits)

lemma startLoad_mounted:
  "pc (startLoad (mounted m ready)) = AwaitFetch"
  "network (startLoad (mounted m ready)) = [requestFor None]"
  "cancelledRef (startLoad (mounted m ready)) = False"
  "totalFetched (startLoad (mounted m ready)) = 0"
  "hasMore (startLoad (mounted m ready)) = True"
  "isLoading (startLoad (mounted m ready)) = True"
  "cursor (startLoad (mounted m ready)) = None"
  "mapReady (startLoad (mounted m ready)) = ready"
  "mapRef (startLoad (mounted m ready)) = m"
  "handlers (startLoad (mounted m ready)) = (ready \<and> m \<noteq> None)"
  "earlierPc (startLoad (mounted m ready)) = Returned"
  "toastRef (startLoad (mounted m ready)) = Some []"
  "pointsRef (startLoad (mounted m ready)) = []"
  "featureMapRef (startLoad (mounted m ready)) = Map.empty"
  "nextFeatureIdRef (startLoad (mounted m ready)) = 1"
  "superclusterRef (startLoad (mounted m ready)) = None"
  "clusterLayerRef (startLoad (mounted m ready)) = None"
  "boundsRef (startLoad (mounted m ready)) = None"
  "shouldFitBoundsRef (startLoad (mounted m ready)) = True"
  "viewRequests (startLoad (mounted m ready)) = []"
  by (simp_all add: startLoad_def mounted_def loopHead_def requestFor_def jsString_FETCH_LIMIT
      truthy_def)


text \<open>While the flag is set no request is sent, by either loop. (The flag is cleared
  again only by a run of the effect, which an unmounted view does not have.)\<close>

lemma cancelled_step:
  assumes "cancelledRef s" and "\<forall>m. e \<noteq> MapReady m"
  shows "cancelledRef (step near expansion s e)"
    and "network (step near expansion s e) = network s"
  using assms
  by (cases e; simp add: renderClusters_frame clusterClick_frame loopHead_def finallyBlock_frame
      catchBlock_frame fetchSettled_frame jsonSettled_frame swapLoops_fields
      split: option.splits LoadPc.splits)+

lemma cancelled_run:
  assumes "cancelledRef s" and "\<forall>m. MapReady m \<notin> set events"
  shows "cancelledRef (run near expansion events s) \<and>
         network (run near expansion events s) = network s"
  using assms
proof (induction events arbitrary: s rule: rev_induct)
  case Nil
  then show ?case by (simp add: run_def)
next
  case (snoc e events)
  let ?t = "run near expansion events s"
  have r: "run near expansion (events @ [e]) s = step near expansion ?t e"
    by (simp add: run_def)
  have e: "\<forall>m. e \<noteq> MapReady m" using snoc.prems(2) by auto
  have "cancelledRef ?t \<and> network ?t = network s"
    using snoc.IH[OF snoc.prems(1)] snoc.prems(2) by simp
  with cancelled_step[of ?t e near expansion] e show ?case
    unfolding r by simp
qed

lemma buffer_size_is_table_size:
  assumes "indexed s"
  shows "length (pointsRef s) = card (dom (featureMapRef s))"
proof -
  from assms have ids: "map pointId (pointsRef s) = [1 ..< nextFeatureIdRef s]"
    and dm: "dom (featureMapRef s) = {1 ..< nextFeatureIdRef s}"
    by (simp_all add: indexed_def)
  have "length (pointsRef s) = length (map pointId (pointsRef s))" by simp
  also have "\<dots> = nextFeatureIdRef s - 1" by (simp only: ids length_upt)
  finally show ?thesis by (simp add: dm)
qed


lemma fetchSettled_failed:
  assumes "\<not> ok response"
  shows "fetchSettled (Some response) s = finallyBlock (catchBlock s)"
  using assms by (simp add: fetchSettled_def)

lemma notifications_catchBlock:
  "notifications (finallyBlock (catchBlock s)) =
     (if toastRef s = None then [] else notifications s @ [loadErrorToast])"
  by (simp add: notifications_def finallyBlock_frame catchBlock_def split: option.splits)


section \<open>The cluster query\<close>

lemma getBounds_Nil: "getBounds [] = None"
  by (simp add: getBounds_def)

lemma indexable_nonEmptyGeometry: "indexable f \<Longrightarrow> nonEmptyGeometry f"
  by (auto simp: indexable_def nonEmptyGeometry_def geometryToLatLng_def getBounds_Nil
      split: option.splits)

lemma Leaf_mergePass: "Leaf p \<in> set (mergePass near ps) \<Longrightarrow> p \<in> set ps"
proof (induction near ps rule: mergePass.induct)
  case (1 near)
  then show ?case by simp
next
  case (2 near q qs)
  then show ?case by (auto simp: Let_def split: if_splits)
qed

lemma Leaf_getClusters: "Leaf p \<in> set (getClusters near index bbox z) \<Longrightarrow> p \<in> set (loaded index)"
  by (auto simp: getClusters_def dest: Leaf_mergePass)










lemma indexed_ids:
  assumes "indexed s"
  shows "sorted_wrt (<) (map pointId (pointsRef s))"
    and "distinct (map pointId (pointsRef s))"
    and "dom (featureMapRef s) = pointId ` set (pointsRef s)"
proof -
  from assms have ids: "map pointId (pointsRef s) = [1 ..< nextFeatureIdRef s]"
    and dm: "dom (featureMapRef s) = {1 ..< nextFeatureIdRef s}"
    by (simp_all add: indexed_def)
  show "sorted_wrt (<) (map pointId (pointsRef s))"
    by (simp only: ids sorted_wrt_upt)
  show "distinct (map pointId (pointsRef s))"
    by (simp only: ids distinct_upt)
  have "pointId ` set (pointsRef s) = set (map pointId (pointsRef s))" by simp
  also have "\<dots> = {1 ..< nextFeatureIdRef s}" by (simp only: ids set_upt)
  finally show "dom (featureMapRef s) = pointId ` set (pointsRef s)" using dm by simp
qed

lemma addCollection_new_ids_greater:
  assumes "indexed s" "p \<in> set (newPointsOf (nextFeatureIdRef s) c)" "q \<in> set (pointsRef s)"
  shows "pointId q < pointId p"
proof -
  from assms(1) have ids: "map pointId (pointsRef s) = [1 ..< nextFeatureIdRef s]"
    by (simp add: indexed_def)
  have "pointId q \<in> set (map pointId (pointsRef s))" using assms(3) by simp
  then have q: "pointId q < nextFeatureIdRef s" by (simp add: ids)
  have "pointId p \<in> set (map pointId (newPointsOf (nextFeatureIdRef s) c))"
    using assms(2) by simp
  then have "nextFeatureIdRef s \<le> pointId p" by (simp add: map_pointId_newPointsOf)
  with q show ?thesis by simp
qed

lemma addCollection_retains:
  assumes "indexed s"
  shows "featureMapRef s \<subseteq>\<^sub>m featureMapRef (addCollection near c s)"
proof -
  from assms have dm: "dom (featureMapRef s) = {1 ..< nextFeatureIdRef s}"
    by (simp add: indexed_def)
  show ?thesis
    unfolding map_le_def
  proof
    fix k assume "k \<in> dom (featureMapRef s)"
    then have "k < nextFeatureIdRef s" by (simp add: dm)
    then show "featureMapRef s k = featureMapRef (addCollection near c s) k"
      by (simp add: addCollection_featureMapRef)
  qed
qed


lemma indexed_table_indexable:
  assumes "indexed s" "featureMapRef s k = Some f"
  shows "indexable f"
proof -
  from assms(2) have "k \<in> dom (featureMapRef s)" by (simp add: domIff)
  then have "k \<in> pointId ` set (pointsRef s)" using indexed_ids(3)[OF assms(1)] by simp
  then obtain p where p: "p \<in> set (pointsRef s)" "pointId p = k" by auto
  from assms(1) p(1) obtain feature where "featureMapRef s (pointId p) = Some feature"
      "indexable feature"
    unfolding indexed_def by blast
  with p(2) assms(2) show ?thesis by simp
qed

lemma indexed_leaf_resolves:
  assumes "indexed s" "superclusterRef s = Some index"
    and "Leaf p \<in> set (getClusters near index bbox z)"
  shows "\<exists>f. featureMapRef s (pointId p) = Some f \<and> nonEmptyGeometry f"
proof -
  from assms(3) have "p \<in> set (loaded index)" by (rule Leaf_getClusters)
  moreover from assms(1,2) have "loaded index = pointsRef s" by (simp add: indexed_def)
  ultimately have "p \<in> set (pointsRef s)" by simp
  with assms(1) obtain feature where "featureMapRef s (pointId p) = Some feature"
      "indexable feature"
    unfolding indexed_def by blast
  then show ?thesis by (auto intro: indexable_nonEmptyGeometry)
qed

lemma addCollection_new_entries:
  "map (\<lambda>p. featureMapRef (addCollection near c s) (pointId p)) (newPointsOf (nextFeatureIdRef s) c)
     = map Some (filter indexable c)"
proof (rule nth_equalityI)
  show "length (map (\<lambda>p. featureMapRef (addCollection near c s) (pointId p))
          (newPointsOf (nextFeatureIdRef s) c)) = length (map Some (filter indexable c))"
    by (simp add: length_newPointsOf)
next
  fix j
  assume "j < length (map (\<lambda>p. featureMapRef (addCollection near c s) (pointId p))
          (newPointsOf (nextFeatureIdRef s) c))"
  then have j: "j < length (filter indexable c)" by (simp add: length_newPointsOf)
  then have "newPointsOf (nextFeatureIdRef s) c ! j =
      pointOf (nextFeatureIdRef s + j) (filter indexable c ! j)"
    by (simp add: newPointsOf_def)
  with j show "map (\<lambda>p. featureMapRef (addCollection near c s) (pointId p))
          (newPointsOf (nextFeatureIdRef s) c) ! j = map Some (filter indexable c) ! j"
    by (simp add: length_newPointsOf pointId_pointOf addCollection_featureMapRef)
qed




lemma sampleBatch_table:
  "featureMapRef (addCollection near sampleBatch s) =
     (\<lambda>k. if nextFeatureIdRef s \<le> k \<and> k < nextFeatureIdRef s + 2
          then Some ([\<lparr>fid = 10, cod_imovel = ''a'', geometry = Some (Point (1, 2))\<rparr>,
                      \<lparr>fid = 12, cod_imovel = ''c'', geometry = Some (LineString [(3, 4), (5, 8)])\<rparr>]
                     ! (k - nextFeatureIdRef s))
          else featureMapRef s k)"
  by (simp add: addCollection_featureMapRef sampleBatch_def indexable_def geometryToLatLng_def
      getBounds_def extendBounds_def coordsToLatLng_def cong: if_cong)


section \<open>The fit-once flag\<close>

lemma foldl_extendBounds_valid:
  "b \<noteq> None \<or> ps \<noteq> [] \<Longrightarrow> foldl extendBounds b ps \<noteq> None"
proof (induction ps arbitrary: b)
  case Nil
  then show ?case by simp
next
  case (Cons p ps)
  have "extendBounds b p \<noteq> None" by (simp add: extendBounds_def split: option.splits prod.splits)
  then show ?case using Cons.IH[of "extendBounds b p"] by simp
qed

text \<open>
  An \<open>addCollection\<close> that has captured a ready map and finds a feature to index ends
  with the render pass, on a session that has points and valid bounds.
\<close>

lemma addCollection_ready:
  assumes "mapReady s" "filter indexable c \<noteq> []"
  shows "\<exists>t b. addCollectionCall near c s = renderClustersCall near t \<and> mapRef t = mapRef s \<and>
      handlers t = handlers s \<and> pointsRef t \<noteq> [] \<and> boundsRef t = Some (Some b) \<and>
      shouldFitBoundsRef t = shouldFitBoundsRef s \<and> viewRequests t = viewRequests s \<and>
      (\<exists>j. superclusterRef t = Some j \<and> loaded j = pointsRef t)"
proof -
  from assms(2) have c: "c \<noteq> []" by auto
  define nb0 where "nb0 = (case boundsRef (getSupercluster s) of
      Some (Some (sw, ne)) \<Rightarrow> extendBounds (extendBounds None sw) ne | _ \<Rightarrow> None)"
  obtain s2 np nb where f: "foldl indexFeature (getSupercluster s, [], nb0) c = (s2, np, nb)"
    by (cases "foldl indexFeature (getSupercluster s, [], nb0) c") auto
  have s2: "shouldFitBoundsRef s2 = shouldFitBoundsRef s" "viewRequests s2 = viewRequests s"
      "mapRef s2 = mapRef s" "mapReady s2 = mapReady s" "handlers s2 = handlers s"
    using f by (auto simp: foldl_indexFeature getSupercluster_frame)
  have np: "np \<noteq> []"
    using f assms(2) by (auto simp: foldl_indexFeature)
  have "nb = foldl extendBounds nb0 (map (\<lambda>f. the (geometryToLatLng (geometry f))) (filter indexable c))"
    using f by (auto simp: foldl_indexFeature)
  then have "nb \<noteq> None" using assms(2) foldl_extendBounds_valid by simp
  then obtain b where nb: "nb = Some b" by auto
  define s4 where "s4 = s2\<lparr>pointsRef := pointsRef s2 @ np,
      boundsRef := (if isValid nb then Some nb else boundsRef s2),
      superclusterRef := map_option (load (pointsRef s2 @ np)) (superclusterRef s2)\<rparr>"
  have s4: "shouldFitBoundsRef s4 = shouldFitBoundsRef s" "viewRequests s4 = viewRequests s"
      "mapRef s4 = mapRef s" "mapReady s4" "pointsRef s4 \<noteq> []" "boundsRef s4 = Some (Some b)"
      "handlers s4 = handlers s"
    using np assms(1) by (simp_all add: s4_def s2 nb isValid_def)
  have "superclusterRef s2 = superclusterRef (getSupercluster s)"
    using f by (auto simp: foldl_indexFeature)
  then obtain i where "superclusterRef s2 = Some i"
    using getSupercluster_created[of s] by auto
  then have j: "\<exists>j. superclusterRef s4 = Some j \<and> loaded j = pointsRef s4"
    by (simp add: s4_def load_def)
  have "addCollectionCall near c s = renderClustersCall near s4"
    using c f np s4(4) by (simp add: addCollectionCall_def Let_def nb0_def[symmetric] s4_def)
  with s4 j show ?thesis by blast
qed

text \<open>
  If the widget does not animate and the move handler is registered, the first batch
  with a feature to index ends in the exhausted stack: \<open>fitBounds\<close> has been called in
  every frame, and the flag is still set.
\<close>

lemma filter_isFit_replicate:
  "filter isFit (xs @ replicate n (FitBounds b)) = filter isFit xs @ replicate n (FitBounds b)"
  by (simp add: isFit_def)

lemma addCollection_overflows:
  assumes "mapReady s" "handlers s" "mapRef s = Some m" "resetsTo m = Some v"
    "filter indexable c \<noteq> []" "shouldFitBoundsRef s"
  shows "addCollectionThrows near c s"
    and "shouldFitBoundsRef (addCollection near c s)"
    and "fits (addCollection near c s) = fits s + Suc (stackDepth m)"
proof -
  from addCollection_ready[OF assms(1,5), of near]
  obtain t b where t: "addCollectionCall near c s = renderClustersCall near t" "mapRef t = mapRef s"
      "handlers t = handlers s" "pointsRef t \<noteq> []" "boundsRef t = Some (Some b)"
      "shouldFitBoundsRef t = shouldFitBoundsRef s" "viewRequests t = viewRequests s"
    by blast
  have c: "renderClustersCall near t = renderFrame (Suc (stackDepth m)) near t"
    by (simp add: renderClustersCall_def t(2) assms(3))
  have o: "snd (renderFrame (Suc (stackDepth m)) near t) \<and>
      shouldFitBoundsRef (fst (renderFrame (Suc (stackDepth m)) near t)) \<and>
      viewRequests (fst (renderFrame (Suc (stackDepth m)) near t)) =
        viewRequests t @ replicate (Suc (stackDepth m)) (FitBounds b)"
    by (rule renderFrame_overflows[where m = m and v = v]) (simp_all add: t assms)
  show "addCollectionThrows near c s"
    unfolding addCollectionThrows_def t(1) c using o by blast
  show "shouldFitBoundsRef (addCollection near c s)"
    unfolding addCollection_def t(1) c using o by blast
  have "viewRequests (addCollection near c s) =
      viewRequests s @ replicate (Suc (stackDepth m)) (FitBounds b)"
    unfolding addCollection_def t(1) c using o t(7) by simp
  then show "fits (addCollection near c s) = fits s + Suc (stackDepth m)"
    unfolding fits_def by (simp only: filter_isFit_replicate length_append length_replicate)
qed

text \<open>
  A render pass that returns fits if and only if the fit is due, and clears the flag
  with it; so does the \<open>addCollection\<close> around it.
\<close>

lemma renderClusters_returned:
  assumes "\<not> renderClustersThrows near s"
  shows "fits (renderClusters near s) = fits s + (if shouldFitBoundsRef s \<and>
            \<not> shouldFitBoundsRef (renderClusters near s) then 1 else 0)"
    and "shouldFitBoundsRef (renderClusters near s) \<longrightarrow> shouldFitBoundsRef s"
proof -
  have n: "\<not> snd (renderFrame (Suc (case mapRef s of None \<Rightarrow> 0 | Some m \<Rightarrow> stackDepth m)) near s)"
    using assms by (simp add: renderClustersThrows_def renderClustersCall_def)
  from renderFrame_returned[OF n]
  show "fits (renderClusters near s) = fits s + (if shouldFitBoundsRef s \<and>
            \<not> shouldFitBoundsRef (renderClusters near s) then 1 else 0)"
    and "shouldFitBoundsRef (renderClusters near s) \<longrightarrow> shouldFitBoundsRef s"
    unfolding renderClusters_def renderClustersCall_def fits_def
    by (auto simp: isFit_def)
qed


section \<open>The cursor\<close>

lemma of_char_digitChar: "d < 10 \<Longrightarrow> (of_char (digitChar d) :: nat) = 48 + d"
  by (simp add: digitChar_def)

lemma isDigit_digitChar: "d < 10 \<Longrightarrow> isDigit (digitChar d)"
  by (simp add: isDigit_def of_char_digitChar)

lemma digitValue_digitChar: "d < 10 \<Longrightarrow> digitValue (digitChar d) = d"
  by (simp add: digitValue_def of_char_digitChar)

lemma digits_nonempty: "digits n \<noteq> []"
  by (subst digits.simps) simp

lemma digits_all_digits: "list_all isDigit (digits n)"
proof (induction n rule: digits.induct)
  case (1 n)
  show ?case
  proof (cases "n < 10")
    case True
    then show ?thesis by (subst digits.simps) (simp add: isDigit_digitChar)
  next
    case False
    then have "list_all isDigit (digits (n div 10))" using 1 by simp
    moreover have "isDigit (digitChar (n mod 10))" by (rule isDigit_digitChar) simp
    ultimately show ?thesis using False by (subst digits.simps) simp
  qed
qed

lemma digits_value: "foldl (\<lambda>a c. 10 * a + digitValue c) 0 (digits n) = n"
proof (induction n rule: digits.induct)
  case (1 n)
  show ?case
  proof (cases "n < 10")
    case True
    then show ?thesis by (subst digits.simps) (simp add: digitValue_digitChar)
  next
    case False
    then have ih: "foldl (\<lambda>a c. 10 * a + digitValue c) 0 (digits (n div 10)) = n div 10"
      using 1 by simp
    have d: "digitValue (digitChar (n mod 10)) = n mod 10" by (rule digitValue_digitChar) simp
    show ?thesis using False by (subst digits.simps) (simp add: ih d)
  qed
qed

lemma parseDigits_digits: "parseDigits (digits n) = Some n"
  by (simp add: parseDigits_def digits_nonempty digits_all_digits digits_value)

lemma digits_head:
  "\<exists>c cs. digits n = c # cs \<and> isDigit c"
proof -
  obtain c cs where d: "digits n = c # cs" using digits_nonempty[of n] by (cases "digits n") auto
  moreover have "isDigit c" using digits_all_digits[of n] d by simp
  ultimately show ?thesis by blast
qed

lemma jsNumber_jsString: "jsNumber (jsString n) = Some n"
proof (cases "n < 0")
  case True
  then show ?thesis by (simp add: jsString_def jsNumber_def parseDigits_digits)
next
  case False
  obtain c cs where d: "digits (nat n) = c # cs" and c: "isDigit c"
    using digits_head by blast
  have "c \<noteq> CHR ''-''" "c \<noteq> CHR ''+''" using c by (auto simp: isDigit_def)
  moreover have "parseDigits (c # cs) = Some (nat n)"
    using parseDigits_digits[of "nat n"] d by simp
  ultimately show ?thesis using False d by (simp add: jsString_def jsNumber_def)
qed


lemma unbase64_sextetChar: "n < 64 \<Longrightarrow> unbase64 (sextetChar n) = Some n"
  by (auto simp: unbase64_def sextetChar_def Let_def)

lemma sextetChar_not_pad: "n < 64 \<Longrightarrow> sextetChar n \<noteq> CHR ''=''"
proof
  assume n: "n < 64" and "sextetChar n = CHR ''=''"
  then have "(of_char (sextetChar n) :: nat) = 61" by simp
  with n show False by (auto simp: sextetChar_def split: if_splits)
qed

lemma encodeGroups_sextets:
  "\<forall>b \<in> set bytes. b < 256 \<Longrightarrow> \<forall>x \<in> set (encodeGroups bytes). x < 64"
proof (induction bytes rule: encodeGroups.induct)
  case (1 a b c bytes)
  then have "a < 256" "b < 256" "c < 256" by simp_all
  moreover have "\<forall>x \<in> set (encodeGroups bytes). x < 64" using 1 by simp
  ultimately show ?case by (auto intro: less_mult_imp_div_less)
next
  case (2 a b)
  then have "a < 256" "b < 256" by simp_all
  then show ?case by auto
next
  case (3 a)
  then have "a < 256" by simp
  then show ?case by auto
next
  case 4
  show ?case by simp
qed

lemma decodeGroups_encodeGroups:
  "\<forall>b \<in> set bytes. b < 256 \<Longrightarrow> decodeGroups (encodeGroups bytes) = bytes"
proof (induction bytes rule: encodeGroups.induct)
  case (1 a b c bytes)
  then have "a < 256" "b < 256" "c < 256" by simp_all
  moreover have "decodeGroups (encodeGroups bytes) = bytes" using 1 by simp
  ultimately show ?case by simp
next
  case (2 a b)
  then have "a < 256" "b < 256" by simp_all
  then show ?case by simp
next
  case (3 a)
  then have "a < 256" by simp
  then show ?case by simp
next
  case 4
  show ?case by simp
qed


lemma map_filter_unbase64:
  "\<forall>x \<in> set xs. x < 64 \<Longrightarrow> List.map_filter unbase64 (map sextetChar xs) = xs"
  by (induction xs) (simp_all add: List.map_filter_simps unbase64_sextetChar)

lemma takeWhile_sextets:
  "\<forall>x \<in> set xs. x < 64 \<Longrightarrow>
     takeWhile (\<lambda>c. c \<noteq> CHR ''='') (map sextetChar xs) = map sextetChar xs"
  by (induction xs) (simp_all add: sextetChar_not_pad)

lemma fromBase64url_toBase64url: "fromBase64url (toBase64url s) = s"
proof -
  let ?bytes = "map of_char s :: nat list"
  let ?sextets = "encodeGroups ?bytes"
  have bytes: "\<forall>b \<in> set ?bytes. b < 256" by auto
  then have six: "\<forall>x \<in> set ?sextets. x < 64" by (rule encodeGroups_sextets)
  have "fromBase64url (toBase64url s) = map char_of (decodeGroups ?sextets)"
    unfolding fromBase64url_def toBase64url_def
    by (simp only: takeWhile_sextets[OF six] map_filter_unbase64[OF six])
  also have "\<dots> = map char_of ?bytes"
    by (simp only: decodeGroups_encodeGroups[OF bytes])
  also have "\<dots> = s" by (simp add: comp_def)
  finally show ?thesis .
qed









text \<open>Two values, as Node computes them.\<close>

lemma encodeCursor_5000: "encodeCursor 5000 = ''NTAwMA''"
  by (simp add: encodeCursor_def toBase64url_def jsString_def digits.simps digitChar_def
      sextetChar_def char_of_eq_iff)
lemma decodeCursor_padded: "decodeCursor ''NTAwMA=='' = Some 5000"
  by (simp add: decodeCursor_def fromBase64url_def unbase64_def List.map_filter_simps
      jsNumber_def parseDigits_def isDigit_def digitValue_def Let_def char_of_eq_iff)

section \<open>A session served by the route: the run\<close>



















section \<open>The two loops, step by step\<close>

text \<open>What \<open>addCollection\<close> does besides indexing is the render pass, if it has captured
  a ready map.\<close>

lemma addCollection_shape:
  "\<exists>t. shouldFitBoundsRef t = shouldFitBoundsRef s \<and> viewRequests t = viewRequests s \<and>
       mapRef t = mapRef s \<and> clusterLayerRef t = clusterLayerRef s \<and>
       (addCollectionCall near c s = (t, False) \<or>
        mapReady s \<and> filter indexable c \<noteq> [] \<and>
        addCollectionCall near c s = renderClustersCall near t)"
proof (cases "c = []")
  case True
  then have "addCollectionCall near c s = (s, False)" by (simp add: addCollectionCall_def)
  then show ?thesis by blast
next
  case False
  define nb0 where "nb0 = (case boundsRef (getSupercluster s) of
      Some (Some (sw, ne)) \<Rightarrow> extendBounds (extendBounds None sw) ne | _ \<Rightarrow> None)"
  obtain s2 np nb where f: "foldl indexFeature (getSupercluster s, [], nb0) c = (s2, np, nb)"
    by (cases "foldl indexFeature (getSupercluster s, [], nb0) c") auto
  have s2: "shouldFitBoundsRef s2 = shouldFitBoundsRef s" "viewRequests s2 = viewRequests s"
      "mapRef s2 = mapRef s" "clusterLayerRef s2 = clusterLayerRef s" "mapReady s2 = mapReady s"
    using f by (auto simp: foldl_indexFeature getSupercluster_frame)
  have np: "(np = []) = (filter indexable c = [])"
    using f by (auto simp: foldl_indexFeature)
  define s4 where "s4 = s2\<lparr>pointsRef := pointsRef s2 @ np,
      boundsRef := (if isValid nb then Some nb else boundsRef s2),
      superclusterRef := map_option (load (pointsRef s2 @ np)) (superclusterRef s2)\<rparr>"
  have s4: "shouldFitBoundsRef s4 = shouldFitBoundsRef s" "viewRequests s4 = viewRequests s"
      "mapRef s4 = mapRef s" "clusterLayerRef s4 = clusterLayerRef s" "mapReady s4 = mapReady s"
    by (simp_all add: s4_def s2)
  have "addCollectionCall near c s =
      (if np = [] then (s2, False)
       else if mapReady s4 then renderClustersCall near s4 else (s4, False))"
    using False f by (simp add: addCollectionCall_def Let_def nb0_def[symmetric] s4_def)
  then show ?thesis
    using s2 s4 np by (cases "np = []"; cases "mapReady s4"; simp; blast)
qed

lemma addCollection_unready:
  assumes "\<not> mapReady s"
  shows "clusterLayerRef (addCollection near c s) = clusterLayerRef s"
    and "viewRequests (addCollection near c s) = viewRequests s"
    and "shouldFitBoundsRef (addCollection near c s) = shouldFitBoundsRef s"
    and "mapRef (addCollection near c s) = mapRef s"
  using addCollection_shape[where s = s and near = near and c = c] assms by (auto simp: addCollection_def)

lemma renderFrame_calm:
  assumes "calm s"
  shows "mapRef (fst (renderFrame k near s)) = mapRef s"
proof (cases k)
  case 0
  then show ?thesis by simp
next
  case (Suc j)
  obtain t fit where d: "drawPass near s = (t, fit)" by (cases "drawPass near s") auto
  have t: "mapRef t = mapRef s" using drawPass_frame(1)[of near s] d by simp
  have f: "fit = Some (b, m) \<Longrightarrow> resetsTo m = None" for b m
    using drawPass_due[of near s b m] d assms by (simp add: calm_def)
  show ?thesis
    using t by (auto simp: Suc d Let_def split: option.splits prod.splits dest: f)
qed

lemma addCollection_calm:
  assumes "calm s"
  shows "\<not> addCollectionThrows near c s"
    and "mapRef (addCollection near c s) = mapRef s"
    and "calm (addCollection near c s)"
proof -
  show "\<not> addCollectionThrows near c s"
    by (rule addCollection_returns) (use assms in \<open>auto simp: calm_def split: option.splits\<close>)
  obtain t where t: "mapRef t = mapRef s"
      "addCollectionCall near c s = (t, False) \<or>
       mapReady s \<and> filter indexable c \<noteq> [] \<and> addCollectionCall near c s = renderClustersCall near t"
    using addCollection_shape[where s = s and near = near and c = c] by blast
  have "calm t" using assms t(1) by (simp add: calm_def)
  then have "mapRef (renderClusters near t) = mapRef t"
    unfolding renderClusters_def renderClustersCall_def by (rule renderFrame_calm)
  with t show m: "mapRef (addCollection near c s) = mapRef s"
    by (auto simp: addCollection_def)
  show "calm (addCollection near c s)" using assms by (simp add: calm_def m)
qed


text \<open>A render pass whose fit is not due leaves the map, the flag and the requests alone.\<close>

lemma renderClusters_not_due:
  assumes "\<not> (mapRef s \<noteq> None \<and> pointsRef s \<noteq> [] \<and> (\<exists>b. boundsRef s = Some (Some b)) \<and>
              shouldFitBoundsRef s)"
  shows "mapRef (renderClusters near s) = mapRef s"
    and "shouldFitBoundsRef (renderClusters near s) = shouldFitBoundsRef s"
    and "viewRequests (renderClusters near s) = viewRequests s"
proof -
  obtain t fit where d: "drawPass near s = (t, fit)" by (cases "drawPass near s") auto
  have "fit = None"
  proof (cases fit)
    case (Some bm)
    obtain b m where "bm = (b, m)" by (cases bm) auto
    with Some drawPass_due[of near s b m] d assms show ?thesis by auto
  qed simp
  then have r: "renderClusters near s = t"
    by (simp add: renderClusters_def renderClustersCall_def d)
  show "mapRef (renderClusters near s) = mapRef s"
    and "shouldFitBoundsRef (renderClusters near s) = shouldFitBoundsRef s"
    and "viewRequests (renderClusters near s) = viewRequests s"
    unfolding r using drawPass_frame[of near s] d by simp_all
qed

text \<open>The steps of the loop of the latest run.\<close>

lemma step_FetchSettled_ok:
  assumes "pc s = AwaitFetch" "ok r"
  shows "step near expansion s (FetchSettled (Some r)) = s\<lparr>pc := AwaitJson r\<rparr>"
  using assms by (simp add: fetchSettled_def)

lemma step_FetchSettled_failed:
  assumes "pc s = AwaitFetch" "\<not> ok r"
  shows "step near expansion s (FetchSettled (Some r)) =
     s\<lparr>toastRef := map_option (\<lambda>shown. shown @ [loadErrorToast]) (toastRef s),
       isLoading := (cancelledRef s \<and> isLoading s), pc := Returned\<rparr>"
  using assms
  by (cases "toastRef s") (simp_all add: fetchSettled_def catchBlock_def finallyBlock_def)

lemma step_TimerFired:
  assumes "pc s = AwaitTimer" "\<not> cancelledRef s"
  shows "step near expansion s TimerFired =
     s\<lparr>network := network s @ [requestFor (cursor s)], pc := AwaitFetch\<rparr>"
  using assms by (simp add: loopHead_def requestFor_def jsString_FETCH_LIMIT)

lemma step_JsonSettled:
  assumes "pc s = AwaitJson r" "body r = Payload p" "calm s"
  shows "pc (step near expansion s JsonSettled) =
           (if truthy (nextCursor p) then AwaitTimer else Returned)"
    and "cursor (step near expansion s JsonSettled) =
           (if truthy (nextCursor p) then nextCursor p else cursor s)"
    and "totalFetched (step near expansion s JsonSettled) = totalFetched s + length (features p)"
    and "hasMore (step near expansion s JsonSettled) = (truthy (nextCursor p) \<and> hasMore s)"
    and "network (step near expansion s JsonSettled) = network s"
    and "cancelledRef (step near expansion s JsonSettled) = cancelledRef s"
    and "toastRef (step near expansion s JsonSettled) = toastRef s"
    and "mapReady (step near expansion s JsonSettled) = mapReady s"
    and "handlers (step near expansion s JsonSettled) = handlers s"
    and "earlierPc (step near expansion s JsonSettled) = earlierPc s"
    and "earlierCursor (step near expansion s JsonSettled) = earlierCursor s"
    and "earlierReady (step near expansion s JsonSettled) = earlierReady s"
    and "mapRef (step near expansion s JsonSettled) = mapRef s"
    and "calm (step near expansion s JsonSettled)"
    and "pointsRef (step near expansion s JsonSettled) =
           pointsRef s @ newPointsOf (nextFeatureIdRef s) (features p)"
    and "nextFeatureIdRef (step near expansion s JsonSettled) =
           nextFeatureIdRef s + length (filter indexable (features p))"
proof -
  have st: "step near expansion s JsonSettled = jsonSettled near r s"
    using assms(1) by simp
  note nt = addCollection_calm(1)[OF assms(3), of near "features p"]
  have m: "mapRef (jsonSettled near r s) = mapRef s"
    by (simp add: jsonSettled_data[OF assms(2)] addCollection_calm(2)[OF assms(3)])
  show "pc (step near expansion s JsonSettled) =
           (if truthy (nextCursor p) then AwaitTimer else Returned)"
    and "cursor (step near expansion s JsonSettled) =
           (if truthy (nextCursor p) then nextCursor p else cursor s)"
    and "totalFetched (step near expansion s JsonSettled) = totalFetched s + length (features p)"
    and "hasMore (step near expansion s JsonSettled) = (truthy (nextCursor p) \<and> hasMore s)"
    and "toastRef (step near expansion s JsonSettled) = toastRef s"
    unfolding st
    by (cases "truthy (nextCursor p)";
        simp add: jsonSettled_more[OF assms(2) _ nt] jsonSettled_last[OF assms(2) _ nt])+
  show "network (step near expansion s JsonSettled) = network s"
    and "cancelledRef (step near expansion s JsonSettled) = cancelledRef s"
    and "mapReady (step near expansion s JsonSettled) = mapReady s"
    and "handlers (step near expansion s JsonSettled) = handlers s"
    and "earlierPc (step near expansion s JsonSettled) = earlierPc s"
    and "earlierCursor (step near expansion s JsonSettled) = earlierCursor s"
    and "earlierReady (step near expansion s JsonSettled) = earlierReady s"
    unfolding st by (simp_all add: jsonSettled_frame)
  show "mapRef (step near expansion s JsonSettled) = mapRef s"
    unfolding st by (rule m)
  show "calm (step near expansion s JsonSettled)"
    unfolding st using assms(3) by (simp add: calm_def m)
  show "pointsRef (step near expansion s JsonSettled) =
           pointsRef s @ newPointsOf (nextFeatureIdRef s) (features p)"
    and "nextFeatureIdRef (step near expansion s JsonSettled) =
           nextFeatureIdRef s + length (filter indexable (features p))"
    unfolding st
    by (simp_all add: jsonSettled_data[OF assms(2)] addCollection_pointsRef
        addCollection_nextFeatureIdRef)
qed

text \<open>The steps of the loop of the run before; its \<open>addCollection\<close> has captured
  \<open>mapReady = false\<close> and does not draw.\<close>

lemma step_EarlierFetchSettled_ok:
  assumes "earlierPc s = AwaitFetch" "ok r"
  shows "step near expansion s (EarlierFetchSettled (Some r)) = s\<lparr>earlierPc := AwaitJson r\<rparr>"
  using assms by (simp add: fetchSettled_def swapLoops_def)

lemma step_EarlierFetchSettled_failed:
  assumes "earlierPc s = AwaitFetch" "\<not> ok r"
  shows "step near expansion s (EarlierFetchSettled (Some r)) =
     s\<lparr>toastRef := map_option (\<lambda>shown. shown @ [loadErrorToast]) (toastRef s),
       isLoading := (cancelledRef s \<and> isLoading s), earlierPc := Returned\<rparr>"
  using assms
  by (cases "toastRef s")
     (simp_all add: fetchSettled_def catchBlock_def finallyBlock_def swapLoops_def)

lemma step_EarlierTimerFired:
  assumes "earlierPc s = AwaitTimer" "\<not> cancelledRef s"
  shows "step near expansion s EarlierTimerFired =
     s\<lparr>network := network s @ [requestFor (earlierCursor s)], earlierPc := AwaitFetch\<rparr>"
  using assms by (simp add: loopHead_def requestFor_def jsString_FETCH_LIMIT swapLoops_def)

lemma step_EarlierJsonSettled:
  assumes "earlierPc s = AwaitJson r" "body r = Payload p" "\<not> earlierReady s"
  shows "earlierPc (step near expansion s EarlierJsonSettled) =
           (if truthy (nextCursor p) then AwaitTimer else Returned)"
    and "earlierCursor (step near expansion s EarlierJsonSettled) =
           (if truthy (nextCursor p) then nextCursor p else earlierCursor s)"
    and "totalFetched (step near expansion s EarlierJsonSettled) =
           totalFetched s + length (features p)"
    and "hasMore (step near expansion s EarlierJsonSettled) = (truthy (nextCursor p) \<and> hasMore s)"
    and "network (step near expansion s EarlierJsonSettled) = network s"
    and "cancelledRef (step near expansion s EarlierJsonSettled) = cancelledRef s"
    and "toastRef (step near expansion s EarlierJsonSettled) = toastRef s"
    and "mapReady (step near expansion s EarlierJsonSettled) = mapReady s"
    and "handlers (step near expansion s EarlierJsonSettled) = handlers s"
    and "pc (step near expansion s EarlierJsonSettled) = pc s"
    and "cursor (step near expansion s EarlierJsonSettled) = cursor s"
    and "earlierReady (step near expansion s EarlierJsonSettled) = earlierReady s"
    and "mapRef (step near expansion s EarlierJsonSettled) = mapRef s"
    and "calm (step near expansion s EarlierJsonSettled) = calm s"
    and "clusterLayerRef (step near expansion s EarlierJsonSettled) = clusterLayerRef s"
    and "viewRequests (step near expansion s EarlierJsonSettled) = viewRequests s"
    and "shouldFitBoundsRef (step near expansion s EarlierJsonSettled) = shouldFitBoundsRef s"
    and "pointsRef (step near expansion s EarlierJsonSettled) =
           pointsRef s @ newPointsOf (nextFeatureIdRef s) (features p)"
    and "nextFeatureIdRef (step near expansion s EarlierJsonSettled) =
           nextFeatureIdRef s + length (filter indexable (features p))"
proof -
  let ?w = "swapLoops s"
  have st: "step near expansion s EarlierJsonSettled = swapLoops (jsonSettled near r ?w)"
    using assms(1) by simp
  have u: "\<not> mapReady ?w" using assms(3) by (simp add: swapLoops_fields)
  have nt: "\<not> addCollectionThrows near (features p) ?w"
    by (rule addCollection_returns) (simp add: u)
  note data = jsonSettled_data[OF assms(2), of near ?w]
  show "earlierPc (step near expansion s EarlierJsonSettled) =
           (if truthy (nextCursor p) then AwaitTimer else Returned)"
    and "earlierCursor (step near expansion s EarlierJsonSettled) =
           (if truthy (nextCursor p) then nextCursor p else earlierCursor s)"
    and "totalFetched (step near expansion s EarlierJsonSettled) =
           totalFetched s + length (features p)"
    and "hasMore (step near expansion s EarlierJsonSettled) = (truthy (nextCursor p) \<and> hasMore s)"
    and "toastRef (step near expansion s EarlierJsonSettled) = toastRef s"
    unfolding st
    by (cases "truthy (nextCursor p)";
        simp add: swapLoops_fields jsonSettled_more[OF assms(2) _ nt]
          jsonSettled_last[OF assms(2) _ nt])+
  show "network (step near expansion s EarlierJsonSettled) = network s"
    and "cancelledRef (step near expansion s EarlierJsonSettled) = cancelledRef s"
    and "mapReady (step near expansion s EarlierJsonSettled) = mapReady s"
    and "handlers (step near expansion s EarlierJsonSettled) = handlers s"
    and "pc (step near expansion s EarlierJsonSettled) = pc s"
    and "cursor (step near expansion s EarlierJsonSettled) = cursor s"
    and "earlierReady (step near expansion s EarlierJsonSettled) = earlierReady s"
    unfolding st by (simp_all add: swapLoops_fields jsonSettled_frame)
  show m: "mapRef (step near expansion s EarlierJsonSettled) = mapRef s"
    and "clusterLayerRef (step near expansion s EarlierJsonSettled) = clusterLayerRef s"
    and "viewRequests (step near expansion s EarlierJsonSettled) = viewRequests s"
    and "shouldFitBoundsRef (step near expansion s EarlierJsonSettled) = shouldFitBoundsRef s"
    unfolding st by (simp_all add: swapLoops_fields data addCollection_unready[OF u])
  show "calm (step near expansion s EarlierJsonSettled) = calm s"
    by (simp only: calm_def m)
  show "pointsRef (step near expansion s EarlierJsonSettled) =
           pointsRef s @ newPointsOf (nextFeatureIdRef s) (features p)"
    and "nextFeatureIdRef (step near expansion s EarlierJsonSettled) =
           nextFeatureIdRef s + length (filter indexable (features p))"
    unfolding st
    by (simp_all add: swapLoops_fields data addCollection_pointsRef addCollection_nextFeatureIdRef)
qed

text \<open>The map arrives: the effect runs again, and the loop that was running is now the
  loop of the run before.\<close>

lemma step_MapReady:
  assumes "\<not> mapReady s"
  shows "pc (step near expansion s (MapReady m)) = AwaitFetch"
    and "cursor (step near expansion s (MapReady m)) = None"
    and "earlierPc (step near expansion s (MapReady m)) = pc s"
    and "earlierCursor (step near expansion s (MapReady m)) = cursor s"
    and "earlierReady (step near expansion s (MapReady m)) = False"
    and "cancelledRef (step near expansion s (MapReady m)) = False"
    and "network (step near expansion s (MapReady m)) = network s @ [requestFor None]"
    and "totalFetched (step near expansion s (MapReady m)) = 0"
    and "hasMore (step near expansion s (MapReady m)) = True"
    and "mapReady (step near expansion s (MapReady m)) = True"
    and "handlers (step near expansion s (MapReady m)) = True"
    and "toastRef (step near expansion s (MapReady m)) = toastRef s"
    and "mapRef (step near expansion s (MapReady m)) = Some m"
    and "pointsRef (step near expansion s (MapReady m)) = []"
    and "featureMapRef (step near expansion s (MapReady m)) = Map.empty"
    and "nextFeatureIdRef (step near expansion s (MapReady m)) = 1"
    and "shouldFitBoundsRef (step near expansion s (MapReady m)) = True"
    and "viewRequests (step near expansion s (MapReady m)) = viewRequests s"
proof -
  define s3 where "s3 = (startLoad (s\<lparr>mapRef := Some m, cancelledRef := True\<rparr>))
      \<lparr>mapReady := True, handlers := True\<rparr>"
  have st: "step near expansion s (MapReady m) = renderClusters near s3"
    using assms by (simp add: s3_def Let_def)
  have f: "pc s3 = AwaitFetch" "cursor s3 = None" "earlierPc s3 = pc s" "earlierCursor s3 = cursor s"
      "earlierReady s3 = False" "cancelledRef s3 = False" "network s3 = network s @ [requestFor None]"
      "totalFetched s3 = 0" "hasMore s3 = True" "mapReady s3 = True" "handlers s3 = True"
      "toastRef s3 = toastRef s" "mapRef s3 = Some m" "pointsRef s3 = []"
      "featureMapRef s3 = Map.empty" "nextFeatureIdRef s3 = 1" "shouldFitBoundsRef s3 = True"
      "viewRequests s3 = viewRequests s"
    using assms
    by (simp_all add: s3_def startLoad_def loopHead_def requestFor_def jsString_FETCH_LIMIT
        truthy_def)
  have nd: "\<not> (mapRef s3 \<noteq> None \<and> pointsRef s3 \<noteq> [] \<and> (\<exists>b. boundsRef s3 = Some (Some b)) \<and>
              shouldFitBoundsRef s3)"
    by (simp add: f)
  show "pc (step near expansion s (MapReady m)) = AwaitFetch"
    and "cursor (step near expansion s (MapReady m)) = None"
    and "earlierPc (step near expansion s (MapReady m)) = pc s"
    and "earlierCursor (step near expansion s (MapReady m)) = cursor s"
    and "earlierReady (step near expansion s (MapReady m)) = False"
    and "cancelledRef (step near expansion s (MapReady m)) = False"
    and "network (step near expansion s (MapReady m)) = network s @ [requestFor None]"
    and "totalFetched (step near expansion s (MapReady m)) = 0"
    and "hasMore (step near expansion s (MapReady m)) = True"
    and "mapReady (step near expansion s (MapReady m)) = True"
    and "handlers (step near expansion s (MapReady m)) = True"
    and "toastRef (step near expansion s (MapReady m)) = toastRef s"
    and "pointsRef (step near expansion s (MapReady m)) = []"
    and "featureMapRef (step near expansion s (MapReady m)) = Map.empty"
    and "nextFeatureIdRef (step near expansion s (MapReady m)) = 1"
    unfolding st by (simp_all add: renderClusters_frame f)
  show "mapRef (step near expansion s (MapReady m)) = Some m"
    and "shouldFitBoundsRef (step near expansion s (MapReady m)) = True"
    and "viewRequests (step near expansion s (MapReady m)) = viewRequests s"
    unfolding st by (simp_all add: renderClusters_not_due[OF nd] f)
qed

text \<open>The page whose render pass exhausts the stack: the points are indexed; the page is
  not counted, the loop ends in its \<open>catch\<close> block, and the flag is still set.\<close>

lemma step_JsonSettled_overflow:
  assumes "pc s = AwaitJson r" "body r = Payload p" "mapReady s" "handlers s"
    "mapRef s = Some m" "resetsTo m = Some v" "filter indexable (features p) \<noteq> []"
    "shouldFitBoundsRef s"
  shows "pc (step near expansion s JsonSettled) = Returned"
    and "totalFetched (step near expansion s JsonSettled) = totalFetched s"
    and "hasMore (step near expansion s JsonSettled) = hasMore s"
    and "network (step near expansion s JsonSettled) = network s"
    and "toastRef (step near expansion s JsonSettled) =
           map_option (\<lambda>shown. shown @ [loadErrorToast]) (toastRef s)"
    and "shouldFitBoundsRef (step near expansion s JsonSettled)"
    and "fits (step near expansion s JsonSettled) = fits s + Suc (stackDepth m)"
    and "pointsRef (step near expansion s JsonSettled) =
           pointsRef s @ newPointsOf (nextFeatureIdRef s) (features p)"
proof -
  have st: "step near expansion s JsonSettled = jsonSettled near r s"
    using assms(1) by simp
  note o = addCollection_overflows[OF assms(3,4,5,6,7,8), of near]
  note data = jsonSettled_data[OF assms(2), of near s]
  show "pc (step near expansion s JsonSettled) = Returned"
    and "totalFetched (step near expansion s JsonSettled) = totalFetched s"
    and "hasMore (step near expansion s JsonSettled) = hasMore s"
    and "network (step near expansion s JsonSettled) = network s"
    and "toastRef (step near expansion s JsonSettled) =
           map_option (\<lambda>shown. shown @ [loadErrorToast]) (toastRef s)"
    unfolding st by (simp_all add: jsonSettled_threw[OF assms(2) o(1)])
  show "shouldFitBoundsRef (step near expansion s JsonSettled)"
    unfolding st data using o(2) .
  show "fits (step near expansion s JsonSettled) = fits s + Suc (stackDepth m)"
    unfolding st fits_def data using o(3) by (simp add: fits_def)
  show "pointsRef (step near expansion s JsonSettled) =
           pointsRef s @ newPointsOf (nextFeatureIdRef s) (features p)"
    unfolding st data by (rule addCollection_pointsRef)
qed



section \<open>The claims\<close>

lemma sampleBatch_points:
  "pointsRef (addCollection near sampleBatch (startLoad (mounted m ready)))
     = [\<lparr>coordinates = (1, 2), pointId = 1\<rparr>, \<lparr>coordinates = (4, 6), pointId = 2\<rparr>]"
  by (simp add: addCollection_pointsRef geometryToLatLng_def getBounds_def extendBounds_def
      getCenter_def coordsToLatLng_def indexable_def pointOf_def newPointsOf_def
      startLoad_def loopHead_def mounted_def upt_rec sampleBatch_def)

lemma pages:
  "ok firstPage" "body firstPage = Payload \<lparr>features = sampleBatch, nextCursor = Some ''A''\<rparr>"
  "ok lastPage" "body lastPage = Payload \<lparr>features = take 2 sampleBatch, nextCursor = None\<rparr>"
  by (simp_all add: firstPage_def lastPage_def page_def)

lemma sampleBatch_indexable:
  "filter indexable sampleBatch =
     [\<lparr>fid = 10, cod_imovel = ''a'', geometry = Some (Point (1, 2))\<rparr>,
      \<lparr>fid = 12, cod_imovel = ''c'', geometry = Some (LineString [(3, 4), (5, 8)])\<rparr>]"
  "newPointsOf 1 sampleBatch =
     [\<lparr>coordinates = (1, 2), pointId = 1\<rparr>, \<lparr>coordinates = (4, 6), pointId = 2\<rparr>]"
  "newPointsOf (Suc 0) sampleBatch =
     [\<lparr>coordinates = (1, 2), pointId = Suc 0\<rparr>, \<lparr>coordinates = (4, 6), pointId = 2\<rparr>]"
  "newPointsOf 3 sampleBatch =
     [\<lparr>coordinates = (1, 2), pointId = 3\<rparr>, \<lparr>coordinates = (4, 6), pointId = 4\<rparr>]"
  by (simp_all add: geometryToLatLng_def getBounds_def extendBounds_def
      getCenter_def coordsToLatLng_def indexable_def pointOf_def newPointsOf_def
      upt_rec sampleBatch_def)


text \<open>
  C8. Within a session every point id is unique and greater than all ids assigned before
  it, and every assigned id maps to exactly one retained feature; every batch-indexing
  operation preserves this. Every state of a session satisfies the invariant \<open>indexed\<close>
  (the ids of the points buffer are \<open>1, 2, ...\<close> in order, and the feature table holds
  exactly these ids). From a state that satisfies it, \<open>addCollection\<close> leads to one that
  does: the ids of the buffer are strictly increasing and distinct, the keys of the table
  are the ids of the buffer, the buffer is the old one followed by points whose ids are
  greater than every old id, and every old entry of the table is still there.
  (Ids are natural numbers here; a JavaScript number counts exactly up to \<open>2^53\<close>.)
\<close>

theorem point_ids_unique_increasing:
  fixes start :: Session
  shows "indexed (run near expansion events (startLoad start)) \<and>
    (indexed s \<longrightarrow>
       indexed (addCollection near c s) \<and>
       sorted_wrt (<) (map pointId (pointsRef (addCollection near c s))) \<and>
       distinct (map pointId (pointsRef (addCollection near c s))) \<and>
       dom (featureMapRef (addCollection near c s)) = pointId ` set (pointsRef (addCollection near c s)) \<and>
       (\<exists>new. pointsRef (addCollection near c s) = pointsRef s @ new \<and>
          (\<forall>p \<in> set new. \<forall>q \<in> set (pointsRef s). pointId q < pointId p)) \<and>
       featureMapRef s \<subseteq>\<^sub>m featureMapRef (addCollection near c s))"
proof (intro conjI impI)
  show "indexed (run near expansion events (startLoad start))"
    by (rule indexed_run) (rule indexed_startLoad)
next
  assume s: "indexed s"
  then show s': "indexed (addCollection near c s)" by (rule indexed_addCollection)
  from s' show "sorted_wrt (<) (map pointId (pointsRef (addCollection near c s)))"
    by (rule indexed_ids)
  from s' show "distinct (map pointId (pointsRef (addCollection near c s)))"
    by (rule indexed_ids)
  from s' show "dom (featureMapRef (addCollection near c s)) =
      pointId ` set (pointsRef (addCollection near c s))"
    by (rule indexed_ids)
  show "\<exists>new. pointsRef (addCollection near c s) = pointsRef s @ new \<and>
          (\<forall>p \<in> set new. \<forall>q \<in> set (pointsRef s). pointId q < pointId p)"
    using addCollection_new_ids_greater[OF s]
    by (intro exI[of _ "newPointsOf (nextFeatureIdRef s) c"]) (auto simp: addCollection_pointsRef)
  from s show "featureMapRef s \<subseteq>\<^sub>m featureMapRef (addCollection near c s)"
    by (rule addCollection_retains)
qed


theorem point_ids_unique_increasing_witness:
  "indexed (startLoad (mounted None False)) \<and>
   pointsRef (addCollection neverNear sampleBatch (startLoad (mounted None False)))
     = [\<lparr>coordinates = (1, 2), pointId = 1\<rparr>, \<lparr>coordinates = (4, 6), pointId = 2\<rparr>] \<and>
   sorted_wrt (<) (map pointId
     (pointsRef (addCollection neverNear sampleBatch (startLoad (mounted None False)))))"
proof -
  have a: "indexed (startLoad (mounted None False))" by (rule indexed_startLoad)
  from a point_ids_unique_increasing[where s = "startLoad (mounted None False)"
      and near = neverNear and c = sampleBatch]
  have c: "sorted_wrt (<) (map pointId
     (pointsRef (addCollection neverNear sampleBatch (startLoad (mounted None False)))))"
    by blast
  from a sampleBatch_points c show ?thesis by blast
qed

text \<open>
  C6. A feature of a batch whose representative point cannot be computed is skipped: it
  gets no point id and is stored neither in the feature table nor in the points buffer,
  and the other features of the batch are still processed; so every point id in a Leaf
  of a query result resolves through the feature table to a feature with a non-empty
  geometry. For every state \<open>s\<close> of a session and every batch \<open>c\<close>: \<open>addCollection\<close>
  appends to the buffer one point for each indexable feature of \<open>c\<close>, in order
  (\<open>newPointsOf\<close>), using up as many ids, and the table maps the ids of these points to
  exactly the indexable
  features of \<open>c\<close>; the keys of the table are the ids of the buffer; every feature in the
  table is indexable and has a non-empty geometry; and the point of every Leaf that a
  query of the index returns has such a feature under its id.
\<close>

theorem unindexable_features_are_skipped:
  assumes "s = run near expansion events (startLoad start)"
    and "s' = addCollection near c s"
  shows "pointsRef s' = pointsRef s @ newPointsOf (nextFeatureIdRef s) c \<and>
     nextFeatureIdRef s' = nextFeatureIdRef s + length (filter indexable c) \<and>
     map (\<lambda>p. featureMapRef s' (pointId p)) (newPointsOf (nextFeatureIdRef s) c)
       = map Some (filter indexable c) \<and>
     dom (featureMapRef s') = pointId ` set (pointsRef s') \<and>
     (\<forall>k f. featureMapRef s' k = Some f \<longrightarrow> indexable f \<and> nonEmptyGeometry f) \<and>
     (\<forall>index near' bbox z p.
        superclusterRef s' = Some index \<and> Leaf p \<in> set (getClusters near' index bbox z) \<longrightarrow>
        (\<exists>f. featureMapRef s' (pointId p) = Some f \<and> nonEmptyGeometry f))"
proof -
  have s: "indexed s" unfolding assms(1) by (rule indexed_run) (rule indexed_startLoad)
  then have s': "indexed s'" unfolding assms(2) by (rule indexed_addCollection)
  have 1: "pointsRef s' = pointsRef s @ newPointsOf (nextFeatureIdRef s) c"
    unfolding assms(2) by (rule addCollection_pointsRef)
  have 2: "map (\<lambda>p. featureMapRef s' (pointId p)) (newPointsOf (nextFeatureIdRef s) c)
       = map Some (filter indexable c)"
    unfolding assms(2) by (rule addCollection_new_entries)
  have 6: "nextFeatureIdRef s' = nextFeatureIdRef s + length (filter indexable c)"
    unfolding assms(2) by (rule addCollection_nextFeatureIdRef)
  have 3: "dom (featureMapRef s') = pointId ` set (pointsRef s')"
    using s' by (rule indexed_ids)
  have 4: "\<forall>k f. featureMapRef s' k = Some f \<longrightarrow> indexable f \<and> nonEmptyGeometry f"
    using indexed_table_indexable[OF s'] indexable_nonEmptyGeometry by blast
  have 5: "\<forall>index near' bbox z p.
        superclusterRef s' = Some index \<and> Leaf p \<in> set (getClusters near' index bbox z) \<longrightarrow>
        (\<exists>f. featureMapRef s' (pointId p) = Some f \<and> nonEmptyGeometry f)"
    using indexed_leaf_resolves[OF s'] by blast
  from 1 2 3 4 5 6 show ?thesis by blast
qed

theorem unindexable_features_are_skipped_witness:
  "dom (featureMapRef (addCollection neverNear sampleBatch
          (run neverNear noCluster [] (startLoad (mounted None False))))) = {1, 2} \<and>
   map (\<lambda>p. featureMapRef (addCollection neverNear sampleBatch
          (run neverNear noCluster [] (startLoad (mounted None False)))) (pointId p))
     [\<lparr>coordinates = (1, 2), pointId = 1\<rparr>, \<lparr>coordinates = (4, 6), pointId = 2\<rparr>]
     = [Some \<lparr>fid = 10, cod_imovel = ''a'', geometry = Some (Point (1, 2))\<rparr>,
        Some \<lparr>fid = 12, cod_imovel = ''c'', geometry = Some (LineString [(3, 4), (5, 8)])\<rparr>]"
proof -
  let ?s = "run neverNear noCluster [] (startLoad (mounted None False))"
  let ?s' = "addCollection neverNear sampleBatch ?s"
  have s: "?s = startLoad (mounted None False)" by (simp add: run_def)
  have n: "nextFeatureIdRef ?s = 1"
    unfolding s by (simp add: startLoad_def loopHead_def mounted_def)
  have np: "newPointsOf 1 sampleBatch
      = [\<lparr>coordinates = (1, 2), pointId = 1\<rparr>, \<lparr>coordinates = (4, 6), pointId = 2\<rparr>]"
    by (simp add: geometryToLatLng_def getBounds_def extendBounds_def
        getCenter_def coordsToLatLng_def indexable_def pointOf_def newPointsOf_def
        upt_rec sampleBatch_def)
  have kept: "filter indexable sampleBatch
      = [\<lparr>fid = 10, cod_imovel = ''a'', geometry = Some (Point (1, 2))\<rparr>,
         \<lparr>fid = 12, cod_imovel = ''c'', geometry = Some (LineString [(3, 4), (5, 8)])\<rparr>]"
    by (simp add: geometryToLatLng_def getBounds_def extendBounds_def
        getCenter_def coordsToLatLng_def indexable_def sampleBatch_def)
  have pts: "pointsRef ?s' = [\<lparr>coordinates = (1, 2), pointId = 1\<rparr>, \<lparr>coordinates = (4, 6), pointId = 2\<rparr>]"
    unfolding s by (rule sampleBatch_points)
  from unindexable_features_are_skipped[where near = neverNear and c = sampleBatch
      and expansion = noCluster and events = "[]" and start = "mounted None False", OF refl refl]
  have "map (\<lambda>p. featureMapRef ?s' (pointId p)) (newPointsOf (nextFeatureIdRef ?s) sampleBatch)
       = map Some (filter indexable sampleBatch)"
    and "dom (featureMapRef ?s') = pointId ` set (pointsRef ?s')"
    by blast+
  then show ?thesis unfolding n np kept pts by simp
qed







text \<open>
  One loop on its own, whose \<open>addCollection\<close> has not captured a ready map, does with
  two pages what is expected of it: five features counted, \<open>hasMore\<close> cleared, two
  requests, the second with the cursor of the first page.
\<close>

lemma two_pages_single_loop:
  assumes "length fs1 = 3" and "length fs2 = 2" and "c \<noteq> []"
    and "s = run near expansion
           [FetchSettled (Some (page fs1 (Some c))), JsonSettled, TimerFired,
            FetchSettled (Some (page fs2 None)), JsonSettled]
           (startLoad (mounted m False))"
  shows "totalFetched s = 5 \<and> hasMore s = False \<and> pc s = Returned \<and> isLoading s = False \<and>
    network s = [\<lparr>limitParam = Some ''5000'', cursorParam = None\<rparr>,
                 \<lparr>limitParam = Some ''5000'', cursorParam = Some c\<rparr>]"
proof -
  define s1 where "s1 = fetchSettled (Some (page fs1 (Some c))) (startLoad (mounted m False))"
  define s2 where "s2 = jsonSettled near (page fs1 (Some c)) s1"
  define s3 where "s3 = loopHead s2"
  define s4 where "s4 = fetchSettled (Some (page fs2 None)) s3"
  define s5 where "s5 = jsonSettled near (page fs2 None) s4"
  have p1: "ok (page fs1 (Some c))" "body (page fs1 (Some c)) = Payload \<lparr>features = fs1, nextCursor = Some c\<rparr>"
    and p2: "ok (page fs2 None)" "body (page fs2 None) = Payload \<lparr>features = fs2, nextCursor = None\<rparr>"
    by (simp_all add: page_def)
  have t1: "truthy (nextCursor \<lparr>features = fs1, nextCursor = Some c\<rparr>)"
    and t2: "\<not> truthy (nextCursor \<lparr>features = fs2, nextCursor = None\<rparr>)"
    using assms(3) by (simp_all add: truthy_def)
  have f1: "pc s1 = AwaitJson (page fs1 (Some c))" "network s1 = [requestFor None]"
      "\<not> cancelledRef s1" "totalFetched s1 = 0" "isLoading s1" "\<not> mapReady s1"
    unfolding s1_def by (simp_all add: fetchSettled_ok[OF p1(1)] startLoad_mounted)
  have n1: "\<not> addCollectionThrows near (features \<lparr>features = fs1, nextCursor = Some c\<rparr>) s1"
    by (rule addCollection_returns) (simp add: f1)
  have f2: "pc s2 = AwaitTimer" "network s2 = [requestFor None]" "\<not> cancelledRef s2"
      "totalFetched s2 = 3" "cursor s2 = Some c" "isLoading s2" "\<not> mapReady s2"
    unfolding s2_def using assms(1) by (simp_all add: jsonSettled_more[OF p1(2) t1 n1] f1)
  have f3: "pc s3 = AwaitFetch" "network s3 = [requestFor None, requestFor (Some c)]"
      "\<not> cancelledRef s3" "totalFetched s3 = 3" "isLoading s3" "\<not> mapReady s3"
    unfolding s3_def using f2(3) by (simp_all add: loopHead_running f2)
  have f4: "pc s4 = AwaitJson (page fs2 None)" "network s4 = [requestFor None, requestFor (Some c)]"
      "\<not> cancelledRef s4" "totalFetched s4 = 3" "isLoading s4" "\<not> mapReady s4"
    unfolding s4_def by (simp_all add: fetchSettled_ok[OF p2(1)] f3)
  have n4: "\<not> addCollectionThrows near (features \<lparr>features = fs2, nextCursor = None\<rparr>) s4"
    by (rule addCollection_returns) (simp add: f4)
  have f5: "pc s5 = Returned" "network s5 = [requestFor None, requestFor (Some c)]"
      "totalFetched s5 = 5" "hasMore s5 = False" "isLoading s5 = False"
    unfolding s5_def using assms(2) by (simp_all add: jsonSettled_last[OF p2(2) t2 n4] f4)
  have s: "s = s5"
    unfolding assms(4) by (simp add: run_def startLoad_mounted f1 f2 f3 f4
        s1_def[symmetric] s2_def[symmetric] s3_def[symmetric] s4_def[symmetric] s5_def[symmetric])
  have r: "requestFor None = \<lparr>limitParam = Some ''5000'', cursorParam = None\<rparr>"
      "requestFor (Some c) = \<lparr>limitParam = Some ''5000'', cursorParam = Some c\<rparr>"
    using assms(3) by (simp_all add: requestFor_def truthy_def)
  from f5 show ?thesis unfolding s r by simp
qed

text \<open>
  C3. Fed two pages, the first with three features and a next cursor, the second with
  two features and none, the session ends with \<open>totalFetched = 5\<close> and \<open>hasMore = false\<close>
  after exactly two calls of \<open>fetch\<close>. That is what one loop does on its own
  (\<open>two_pages_single_loop\<close>), but it is not what a mounted view does. The effect runs at
  the first render and again when the map has arrived; the cleanup sets the cancellation
  flag and the second run clears it at once (line 235), so the loop of the first run goes
  on beside the loop of the second, on the same refs and the same counters. In the
  session below each of the two loops is served the two pages: four requests are sent,
  and ten features are counted.
\<close>

theorem two_pages_on_a_mount:
  "totalFetched (run neverNear noCluster mountThenTwoPages (startLoad (mounted None False))) = 10 \<and>
   hasMore (run neverNear noCluster mountThenTwoPages (startLoad (mounted None False))) = False \<and>
   pc (run neverNear noCluster mountThenTwoPages (startLoad (mounted None False))) = Returned \<and>
   earlierPc (run neverNear noCluster mountThenTwoPages (startLoad (mounted None False))) = Returned \<and>
   network (run neverNear noCluster mountThenTwoPages (startLoad (mounted None False))) =
     [requestFor None, requestFor None, requestFor (Some ''A''), requestFor (Some ''A'')] \<and>
   length (network (run neverNear noCluster mountThenTwoPages (startLoad (mounted None False)))) = 4"
proof -
  let ?st = "step neverNear noCluster"
  define s0 where "s0 = startLoad (mounted None False)"
  define s1 where "s1 = ?st s0 (MapReady sampleMap)"
  define s2 where "s2 = ?st s1 (EarlierFetchSettled (Some firstPage))"
  define s3 where "s3 = ?st s2 EarlierJsonSettled"
  define s4 where "s4 = ?st s3 (FetchSettled (Some firstPage))"
  define s5 where "s5 = ?st s4 JsonSettled"
  define s6 where "s6 = ?st s5 EarlierTimerFired"
  define s7 where "s7 = ?st s6 TimerFired"
  define s8 where "s8 = ?st s7 (EarlierFetchSettled (Some lastPage))"
  define s9 where "s9 = ?st s8 EarlierJsonSettled"
  define s10 where "s10 = ?st s9 (FetchSettled (Some lastPage))"
  define s11 where "s11 = ?st s10 JsonSettled"
  have len: "length sampleBatch = 3" by (simp add: sampleBatch_def)
  have t: "truthy (Some ''A'')" "\<not> truthy None" by (simp_all add: truthy_def)
  have f0: "pc s0 = AwaitFetch" "cursor s0 = None" "\<not> mapReady s0" "network s0 = [requestFor None]"
    unfolding s0_def by (simp_all add: startLoad_mounted)
  note m1 = step_MapReady[OF f0(3), of neverNear noCluster sampleMap, folded s1_def]
  have f1: "pc s1 = AwaitFetch" "cursor s1 = None" "earlierPc s1 = AwaitFetch"
      "earlierCursor s1 = None" "\<not> earlierReady s1" "\<not> cancelledRef s1"
      "network s1 = [requestFor None, requestFor None]" "totalFetched s1 = 0" "hasMore s1"
      "calm s1"
    using f0 by (simp_all add: m1 calm_def sampleMap_def)
  have e2: "s2 = s1\<lparr>earlierPc := AwaitJson firstPage\<rparr>"
    unfolding s2_def by (rule step_EarlierFetchSettled_ok) (simp_all add: f1 pages)
  have f2: "pc s2 = AwaitFetch" "cursor s2 = None" "earlierPc s2 = AwaitJson firstPage"
      "earlierCursor s2 = None" "\<not> earlierReady s2" "\<not> cancelledRef s2"
      "network s2 = [requestFor None, requestFor None]" "totalFetched s2 = 0" "hasMore s2"
      "calm s2"
    using f1 by (simp_all add: e2 calm_def)
  note j3 = step_EarlierJsonSettled[OF f2(3) pages(2) f2(5), of neverNear noCluster, folded s3_def]
  have f3: "pc s3 = AwaitFetch" "cursor s3 = None" "earlierPc s3 = AwaitTimer"
      "earlierCursor s3 = Some ''A''" "\<not> earlierReady s3" "\<not> cancelledRef s3"
      "network s3 = [requestFor None, requestFor None]" "totalFetched s3 = 3" "hasMore s3"
      "calm s3"
    using f2 t by (simp_all add: j3 len)
  have e4: "s4 = s3\<lparr>pc := AwaitJson firstPage\<rparr>"
    unfolding s4_def by (rule step_FetchSettled_ok) (simp_all add: f3 pages)
  have f4: "pc s4 = AwaitJson firstPage" "cursor s4 = None" "earlierPc s4 = AwaitTimer"
      "earlierCursor s4 = Some ''A''" "\<not> earlierReady s4" "\<not> cancelledRef s4"
      "network s4 = [requestFor None, requestFor None]" "totalFetched s4 = 3" "hasMore s4"
      "calm s4"
    using f3 by (simp_all add: e4 calm_def)
  note j5 = step_JsonSettled[OF f4(1) pages(2) f4(10), of neverNear noCluster, folded s5_def]
  have f5: "pc s5 = AwaitTimer" "cursor s5 = Some ''A''" "earlierPc s5 = AwaitTimer"
      "earlierCursor s5 = Some ''A''" "\<not> earlierReady s5" "\<not> cancelledRef s5"
      "network s5 = [requestFor None, requestFor None]" "totalFetched s5 = 6" "hasMore s5"
      "calm s5"
    using f4 t by (simp_all add: j5 len)
  have e6: "s6 = s5\<lparr>network := network s5 @ [requestFor (earlierCursor s5)],
      earlierPc := AwaitFetch\<rparr>"
    unfolding s6_def by (rule step_EarlierTimerFired) (simp_all add: f5)
  have f6: "pc s6 = AwaitTimer" "cursor s6 = Some ''A''" "earlierPc s6 = AwaitFetch"
      "earlierCursor s6 = Some ''A''" "\<not> earlierReady s6" "\<not> cancelledRef s6"
      "network s6 = [requestFor None, requestFor None, requestFor (Some ''A'')]"
      "totalFetched s6 = 6" "hasMore s6" "calm s6"
    using f5 by (simp_all add: e6 calm_def)
  have e7: "s7 = s6\<lparr>network := network s6 @ [requestFor (cursor s6)], pc := AwaitFetch\<rparr>"
    unfolding s7_def by (rule step_TimerFired) (simp_all add: f6)
  have f7: "pc s7 = AwaitFetch" "cursor s7 = Some ''A''" "earlierPc s7 = AwaitFetch"
      "earlierCursor s7 = Some ''A''" "\<not> earlierReady s7" "\<not> cancelledRef s7"
      "network s7 = [requestFor None, requestFor None, requestFor (Some ''A''), requestFor (Some ''A'')]"
      "totalFetched s7 = 6" "hasMore s7" "calm s7"
    using f6 by (simp_all add: e7 calm_def)
  have e8: "s8 = s7\<lparr>earlierPc := AwaitJson lastPage\<rparr>"
    unfolding s8_def by (rule step_EarlierFetchSettled_ok) (simp_all add: f7 pages)
  have f8: "pc s8 = AwaitFetch" "cursor s8 = Some ''A''" "earlierPc s8 = AwaitJson lastPage"
      "earlierCursor s8 = Some ''A''" "\<not> earlierReady s8" "\<not> cancelledRef s8"
      "network s8 = [requestFor None, requestFor None, requestFor (Some ''A''), requestFor (Some ''A'')]"
      "totalFetched s8 = 6" "hasMore s8" "calm s8"
    using f7 by (simp_all add: e8 calm_def)
  note j9 = step_EarlierJsonSettled[OF f8(3) pages(4) f8(5), of neverNear noCluster, folded s9_def]
  have f9: "pc s9 = AwaitFetch" "cursor s9 = Some ''A''" "earlierPc s9 = Returned"
      "\<not> cancelledRef s9"
      "network s9 = [requestFor None, requestFor None, requestFor (Some ''A''), requestFor (Some ''A'')]"
      "totalFetched s9 = 8" "\<not> hasMore s9" "calm s9"
    using f8 t by (simp_all add: j9 len)
  have e10: "s10 = s9\<lparr>pc := AwaitJson lastPage\<rparr>"
    unfolding s10_def by (rule step_FetchSettled_ok) (simp_all add: f9 pages)
  have f10: "pc s10 = AwaitJson lastPage" "earlierPc s10 = Returned"
      "network s10 = [requestFor None, requestFor None, requestFor (Some ''A''), requestFor (Some ''A'')]"
      "totalFetched s10 = 8" "\<not> hasMore s10" "calm s10"
    using f9 by (simp_all add: e10 calm_def)
  note j11 = step_JsonSettled[OF f10(1) pages(4) f10(6), of neverNear noCluster, folded s11_def]
  have f11: "pc s11 = Returned" "earlierPc s11 = Returned"
      "network s11 = [requestFor None, requestFor None, requestFor (Some ''A''), requestFor (Some ''A'')]"
      "totalFetched s11 = 10" "\<not> hasMore s11"
    using f10 t by (simp_all add: j11 len)
  have r: "run neverNear noCluster mountThenTwoPages (startLoad (mounted None False)) = s11"
    unfolding run_def mountThenTwoPages_def foldl.simps
      s11_def s10_def s9_def s8_def s7_def s6_def s5_def s4_def s3_def s2_def s1_def s0_def ..
  show ?thesis unfolding r using f11 by simp
qed


text \<open>
  C7. In a session the view is fitted to the accumulated bounds exactly once, on the
  first render pass after the bounds have become valid, and never again. A render pass
  that returns does fit at most once and clears the flag with it (\<open>renderClusters_returned\<close>).
  But the flag is cleared after the call of \<open>fitBounds\<close> (line 176 after line 175), and
  a widget that does not animate the fit fires \<open>moveend\<close> inside that call: the handler of
  lines 310-315 calls \<open>renderClusters\<close> again while the flag is still set. In the session
  below the map has arrived, the handler is registered, and the first page brings two
  points far from the initial view: \<open>fitBounds\<close> is called in every frame until the stack
  is exhausted, 861 times for a stack of that depth; the error ends \<open>load\<close> in its
  \<open>catch\<close> block, with the points indexed, the page not counted, and the flag still set.
\<close>

theorem fit_reenters_until_the_stack_is_exhausted:
  "fits (run neverNear noCluster
           [MapReady rigidMap, FetchSettled (Some firstPage), JsonSettled]
           (startLoad (mounted None False))) = 861 \<and>
   shouldFitBoundsRef (run neverNear noCluster
           [MapReady rigidMap, FetchSettled (Some firstPage), JsonSettled]
           (startLoad (mounted None False))) \<and>
   pc (run neverNear noCluster
           [MapReady rigidMap, FetchSettled (Some firstPage), JsonSettled]
           (startLoad (mounted None False))) = Returned \<and>
   totalFetched (run neverNear noCluster
           [MapReady rigidMap, FetchSettled (Some firstPage), JsonSettled]
           (startLoad (mounted None False))) = 0 \<and>
   notifications (run neverNear noCluster
           [MapReady rigidMap, FetchSettled (Some firstPage), JsonSettled]
           (startLoad (mounted None False))) = [loadErrorToast] \<and>
   pointsRef (run neverNear noCluster
           [MapReady rigidMap, FetchSettled (Some firstPage), JsonSettled]
           (startLoad (mounted None False)))
     = [\<lparr>coordinates = (1, 2), pointId = 1\<rparr>, \<lparr>coordinates = (4, 6), pointId = 2\<rparr>]"
proof -
  let ?st = "step neverNear noCluster"
  define s0 where "s0 = startLoad (mounted None False)"
  define s1 where "s1 = ?st s0 (MapReady rigidMap)"
  define s2 where "s2 = ?st s1 (FetchSettled (Some firstPage))"
  define s3 where "s3 = ?st s2 JsonSettled"
  have f0: "\<not> mapReady s0" "toastRef s0 = Some []" "viewRequests s0 = []"
    unfolding s0_def by (simp_all add: startLoad_mounted)
  note m1 = step_MapReady[OF f0(1), of neverNear noCluster rigidMap, folded s1_def]
  have e2: "s2 = s1\<lparr>pc := AwaitJson firstPage\<rparr>"
    unfolding s2_def by (rule step_FetchSettled_ok) (simp_all add: m1 pages)
  have f2: "pc s2 = AwaitJson firstPage" "mapReady s2" "handlers s2" "mapRef s2 = Some rigidMap"
      "shouldFitBoundsRef s2" "totalFetched s2 = 0" "toastRef s2 = Some []" "fits s2 = 0"
      "pointsRef s2 = []" "nextFeatureIdRef s2 = 1"
    by (simp_all add: e2 m1 f0 fits_def)
  have v: "resetsTo rigidMap = Some (\<lparr>lat = 4, lng = 5 / 2\<rparr>, 7, (\<lparr>lat = 1, lng = 0\<rparr>, \<lparr>lat = 7, lng = 5\<rparr>))"
    and d: "stackDepth rigidMap = 860"
    by (simp_all add: rigidMap_def)
  have k: "filter indexable (features \<lparr>features = sampleBatch, nextCursor = Some ''A''\<rparr>) \<noteq> []"
    by (simp add: sampleBatch_indexable)
  note o = step_JsonSettled_overflow[OF f2(1) pages(2) f2(2,3,4) v k f2(5),
      of neverNear noCluster, folded s3_def]
  have f3: "fits s3 = 861" "shouldFitBoundsRef s3" "pc s3 = Returned" "totalFetched s3 = 0"
      "notifications s3 = [loadErrorToast]"
      "pointsRef s3 = [\<lparr>coordinates = (1, 2), pointId = 1\<rparr>, \<lparr>coordinates = (4, 6), pointId = 2\<rparr>]"
    by (simp_all add: o f2 d notifications_def sampleBatch_indexable)
  have r: "run neverNear noCluster [MapReady rigidMap, FetchSettled (Some firstPage), JsonSettled]
      (startLoad (mounted None False)) = s3"
    unfolding run_def foldl.simps s3_def s2_def s1_def s0_def ..
  show ?thesis unfolding r using f3 by simp
qed


text \<open>
  Whenever the lookup throws for the id that the marker has captured, whatever the
  error, the handler returns with the session unchanged: the same map, no request to it.
\<close>

lemma failed_lookup_is_noop:
  assumes "superclusterRef s = Some index"
    and "expansion index clusterId = Inl err"
  shows "clusterClick expansion place clusterId s = s \<and>
    step near expansion s (MarkerClick place count clusterId) = s"
proof -
  have c: "clusterClick expansion place clusterId s = s"
    using assms by (simp add: clusterClick_def)
  then have "step near expansion s (MarkerClick place count clusterId) = s"
    by (simp split: option.splits)
  with c show ?thesis by simp
qed



text \<open>
  C1. Once the session is cancelled no fetch is started, and no state of the session is
  changed after a suspension point that completes after the cancellation. The first half
  holds (\<open>cancelled_run\<close>: a cancelled session sends no request), and the buffer never
  outgrows the table (\<open>buffer_size_is_table_size\<close>). The second half does not: the flag
  is read at the head of the loop and in the \<open>finally\<close> block, not after the two
  \<open>await\<close>s of a page. In the session below the view is torn down while the first
  request is in flight; the response and its body arrive afterwards, and the points
  buffer, the feature table and the progress are written although the flag is set.
\<close>

theorem load_writes_after_teardown:
  "cancelledRef (step neverNear noCluster (startLoad (mounted (Some sampleMap) True)) Teardown) \<and>
   pointsRef (step neverNear noCluster (startLoad (mounted (Some sampleMap) True)) Teardown) = [] \<and>
   featureMapRef (step neverNear noCluster (startLoad (mounted (Some sampleMap) True)) Teardown) 1 = None \<and>
   cancelledRef (run neverNear noCluster
      [Teardown, FetchSettled (Some (page sampleBatch None)), JsonSettled]
      (startLoad (mounted (Some sampleMap) True))) \<and>
   pointsRef (run neverNear noCluster
      [Teardown, FetchSettled (Some (page sampleBatch None)), JsonSettled]
      (startLoad (mounted (Some sampleMap) True)))
     = [\<lparr>coordinates = (1, 2), pointId = 1\<rparr>, \<lparr>coordinates = (4, 6), pointId = 2\<rparr>] \<and>
   featureMapRef (run neverNear noCluster
      [Teardown, FetchSettled (Some (page sampleBatch None)), JsonSettled]
      (startLoad (mounted (Some sampleMap) True))) 1
     = Some \<lparr>fid = 10, cod_imovel = ''a'', geometry = Some (Point (1, 2))\<rparr> \<and>
   totalFetched (run neverNear noCluster
      [Teardown, FetchSettled (Some (page sampleBatch None)), JsonSettled]
      (startLoad (mounted (Some sampleMap) True))) = 3 \<and>
   hasMore (run neverNear noCluster
      [Teardown, FetchSettled (Some (page sampleBatch None)), JsonSettled]
      (startLoad (mounted (Some sampleMap) True))) = False"
proof -
  let ?start = "startLoad (mounted (Some sampleMap) True)"
  define s1 where "s1 = step neverNear noCluster ?start Teardown"
  define s2 where "s2 = fetchSettled (Some (page sampleBatch None)) s1"
  define s3 where "s3 = jsonSettled neverNear (page sampleBatch None) s2"
  have f1: "cancelledRef s1" "pointsRef s1 = []" "featureMapRef s1 = Map.empty"
      "pc s1 = AwaitFetch" "totalFetched s1 = 0" "nextFeatureIdRef s1 = 1" "mapRef s1 = None"
    by (simp_all add: s1_def startLoad_def loopHead_def mounted_def)
  have f2: "s2 = s1\<lparr>pc := AwaitJson (page sampleBatch None)\<rparr>"
    by (simp add: s2_def fetchSettled_def page_def)
  have p: "body (page sampleBatch None) = Payload \<lparr>features = sampleBatch, nextCursor = None\<rparr>"
    by (simp add: page_def)
  have t: "\<not> truthy (nextCursor \<lparr>features = sampleBatch, nextCursor = None\<rparr>)"
    by (simp add: truthy_def)
  have np: "newPointsOf 1 sampleBatch
      = [\<lparr>coordinates = (1, 2), pointId = 1\<rparr>, \<lparr>coordinates = (4, 6), pointId = 2\<rparr>]"
    by (simp add: geometryToLatLng_def getBounds_def extendBounds_def
        getCenter_def coordsToLatLng_def indexable_def pointOf_def newPointsOf_def
        upt_rec sampleBatch_def)
  have len: "length sampleBatch = 3" by (simp add: sampleBatch_def)
  have nt: "\<not> addCollectionThrows neverNear
      (features \<lparr>features = sampleBatch, nextCursor = None\<rparr>) s2"
    by (rule addCollection_returns) (simp add: f2 f1)
  note jl = jsonSettled_last[OF p t nt, folded s3_def]
  have f3: "cancelledRef s3" "totalFetched s3 = 3" "hasMore s3 = False"
    using jl(3,4,5) by (simp_all add: f2 f1 len)
  have pts: "pointsRef s3 = pointsRef (addCollection neverNear sampleBatch s2)"
    and tbl: "featureMapRef s3 = featureMapRef (addCollection neverNear sampleBatch s2)"
    using jsonSettled_data(1,2)[OF p, of neverNear s2, folded s3_def] by simp_all
  have n2: "nextFeatureIdRef s2 = 1" "pointsRef s2 = []" "featureMapRef s2 = Map.empty"
    by (simp_all add: f2 f1)
  have f4: "pointsRef s3 = [\<lparr>coordinates = (1, 2), pointId = 1\<rparr>, \<lparr>coordinates = (4, 6), pointId = 2\<rparr>]"
    unfolding pts addCollection_pointsRef n2 np by simp
  have f5: "featureMapRef s3 1 = Some \<lparr>fid = 10, cod_imovel = ''a'', geometry = Some (Point (1, 2))\<rparr>"
    unfolding tbl sampleBatch_table n2 by simp
  have r0: "run neverNear noCluster
      [Teardown, FetchSettled (Some (page sampleBatch None)), JsonSettled] ?start =
      step neverNear noCluster
        (step neverNear noCluster s1 (FetchSettled (Some (page sampleBatch None)))) JsonSettled"
    unfolding s1_def run_def by (simp only: foldl.simps)
  have r1: "step neverNear noCluster s1 (FetchSettled (Some (page sampleBatch None))) = s2"
    by (simp add: f1 s2_def)
  have r2: "step neverNear noCluster s2 JsonSettled = s3"
    by (simp add: f2 s3_def)
  have r: "run neverNear noCluster
      [Teardown, FetchSettled (Some (page sampleBatch None)), JsonSettled] ?start = s3"
    unfolding r0 r1 r2 ..
  show ?thesis
    unfolding r s1_def[symmetric] using f1 f3 f4 f5 by simp
qed


text \<open>
  The loop whose fetch is answered by a response that is not \<open>ok\<close> ends there: it
  sends no further request, what is indexed stays, and the message is shown if the toast
  is attached.
\<close>

lemma failed_fetch_ends_its_loop:
  assumes "pc s = AwaitFetch" and "\<not> ok response"
    and "s' = step near expansion s (FetchSettled (Some response))"
  shows "pc s' = Returned \<and> network s' = network s \<and>
    featureMapRef s' = featureMapRef s \<and> pointsRef s' = pointsRef s \<and>
    superclusterRef s' = superclusterRef s \<and>
    notifications s' = (if toastRef s = None then [] else notifications s @ [loadErrorToast])"
proof -
  have s': "s' = finallyBlock (catchBlock s)"
    unfolding assms(3) using assms(1,2) by (simp add: fetchSettled_failed)
  have 1: "pc s' = Returned" "network s' = network s" "featureMapRef s' = featureMapRef s"
      "pointsRef s' = pointsRef s" "superclusterRef s' = superclusterRef s"
    unfolding s' by (simp_all add: finallyBlock_frame catchBlock_frame)
  have 2: "notifications s' = (if toastRef s = None then [] else notifications s @ [loadErrorToast])"
    unfolding s' by (rule notifications_catchBlock)
  from 1 2 show ?thesis by blast
qed

text \<open>
  C4. When a page fetch returns a response that is not \<open>ok\<close>, the loop halts (no
  further page is fetched), one error notification is shown, and what was indexed
  before stays. The loop that received the response does halt, with one notification,
  and nothing is rolled back (\<open>failed_fetch_ends_its_loop\<close>). But a mounted view runs
  two loops (see C3), and the failure of one does not stop the other. In the first
  session below the first request of either loop fails: two notifications are shown. In
  the second the loop of the latest run has indexed a page when the request of the loop
  of the run before fails: the notification is shown once and the two points stay, but
  after its delay the other loop sends the next request.
\<close>

theorem failed_fetch_with_two_loops:
  "notifications (run neverNear noCluster
      [MapReady sampleMap, EarlierFetchSettled (Some failure), FetchSettled (Some failure)]
      (startLoad (mounted None False))) = [loadErrorToast, loadErrorToast] \<and>
   notifications (run neverNear noCluster
      [MapReady sampleMap, FetchSettled (Some firstPage), JsonSettled,
       EarlierFetchSettled (Some failure)]
      (startLoad (mounted None False))) = [loadErrorToast] \<and>
   earlierPc (run neverNear noCluster
      [MapReady sampleMap, FetchSettled (Some firstPage), JsonSettled,
       EarlierFetchSettled (Some failure)]
      (startLoad (mounted None False))) = Returned \<and>
   network (run neverNear noCluster
      [MapReady sampleMap, FetchSettled (Some firstPage), JsonSettled,
       EarlierFetchSettled (Some failure)]
      (startLoad (mounted None False))) = [requestFor None, requestFor None] \<and>
   network (run neverNear noCluster
      [MapReady sampleMap, FetchSettled (Some firstPage), JsonSettled,
       EarlierFetchSettled (Some failure), TimerFired]
      (startLoad (mounted None False)))
     = [requestFor None, requestFor None, requestFor (Some ''A'')] \<and>
   pointsRef (run neverNear noCluster
      [MapReady sampleMap, FetchSettled (Some firstPage), JsonSettled,
       EarlierFetchSettled (Some failure), TimerFired]
      (startLoad (mounted None False)))
     = [\<lparr>coordinates = (1, 2), pointId = 1\<rparr>, \<lparr>coordinates = (4, 6), pointId = 2\<rparr>]"
proof -
  let ?st = "step neverNear noCluster"
  define s0 where "s0 = startLoad (mounted None False)"
  define s1 where "s1 = ?st s0 (MapReady sampleMap)"
  have nok: "\<not> ok failure" by (simp add: failure_def)
  have t: "truthy (Some ''A'')" by (simp add: truthy_def)
  have f0: "pc s0 = AwaitFetch" "cursor s0 = None" "\<not> mapReady s0" "network s0 = [requestFor None]"
      "toastRef s0 = Some []"
    unfolding s0_def by (simp_all add: startLoad_mounted)
  note m1 = step_MapReady[OF f0(3), of neverNear noCluster sampleMap, folded s1_def]
  have f1: "pc s1 = AwaitFetch" "earlierPc s1 = AwaitFetch" "\<not> cancelledRef s1"
      "network s1 = [requestFor None, requestFor None]" "toastRef s1 = Some []"
      "pointsRef s1 = []" "nextFeatureIdRef s1 = 1" "calm s1"
    using f0 by (simp_all add: m1 calm_def sampleMap_def)
  define a2 where "a2 = ?st s1 (EarlierFetchSettled (Some failure))"
  define a3 where "a3 = ?st a2 (FetchSettled (Some failure))"
  have ea2: "a2 = s1\<lparr>toastRef := map_option (\<lambda>shown. shown @ [loadErrorToast]) (toastRef s1),
       isLoading := (cancelledRef s1 \<and> isLoading s1), earlierPc := Returned\<rparr>"
    unfolding a2_def by (rule step_EarlierFetchSettled_failed) (simp_all add: f1 nok)
  have fa2: "pc a2 = AwaitFetch" "toastRef a2 = Some [loadErrorToast]"
    using f1 by (simp_all add: ea2)
  have ea3: "a3 = a2\<lparr>toastRef := map_option (\<lambda>shown. shown @ [loadErrorToast]) (toastRef a2),
       isLoading := (cancelledRef a2 \<and> isLoading a2), pc := Returned\<rparr>"
    unfolding a3_def by (rule step_FetchSettled_failed) (simp_all add: fa2 nok)
  have fa3: "notifications a3 = [loadErrorToast, loadErrorToast]"
    using fa2 by (simp add: ea3 notifications_def)
  have ra: "run neverNear noCluster
      [MapReady sampleMap, EarlierFetchSettled (Some failure), FetchSettled (Some failure)]
      (startLoad (mounted None False)) = a3"
    unfolding run_def foldl.simps a3_def a2_def s1_def s0_def ..
  define b2 where "b2 = ?st s1 (FetchSettled (Some firstPage))"
  define b3 where "b3 = ?st b2 JsonSettled"
  define b4 where "b4 = ?st b3 (EarlierFetchSettled (Some failure))"
  define b5 where "b5 = ?st b4 TimerFired"
  have eb2: "b2 = s1\<lparr>pc := AwaitJson firstPage\<rparr>"
    unfolding b2_def by (rule step_FetchSettled_ok) (simp_all add: f1 pages)
  have fb2: "pc b2 = AwaitJson firstPage" "earlierPc b2 = AwaitFetch" "\<not> cancelledRef b2"
      "network b2 = [requestFor None, requestFor None]" "toastRef b2 = Some []"
      "pointsRef b2 = []" "nextFeatureIdRef b2 = 1" "calm b2"
    using f1 by (simp_all add: eb2 calm_def)
  note j3 = step_JsonSettled[OF fb2(1) pages(2) fb2(8), of neverNear noCluster, folded b3_def]
  have fb3: "pc b3 = AwaitTimer" "cursor b3 = Some ''A''" "earlierPc b3 = AwaitFetch"
      "\<not> cancelledRef b3" "network b3 = [requestFor None, requestFor None]"
      "toastRef b3 = Some []"
      "pointsRef b3 = [\<lparr>coordinates = (1, 2), pointId = 1\<rparr>, \<lparr>coordinates = (4, 6), pointId = 2\<rparr>]"
    using fb2 t by (simp_all add: j3 sampleBatch_indexable)
  have eb4: "b4 = b3\<lparr>toastRef := map_option (\<lambda>shown. shown @ [loadErrorToast]) (toastRef b3),
       isLoading := (cancelledRef b3 \<and> isLoading b3), earlierPc := Returned\<rparr>"
    unfolding b4_def by (rule step_EarlierFetchSettled_failed) (simp_all add: fb3 nok)
  have fb4: "pc b4 = AwaitTimer" "cursor b4 = Some ''A''" "earlierPc b4 = Returned"
      "\<not> cancelledRef b4" "network b4 = [requestFor None, requestFor None]"
      "notifications b4 = [loadErrorToast]"
      "pointsRef b4 = [\<lparr>coordinates = (1, 2), pointId = 1\<rparr>, \<lparr>coordinates = (4, 6), pointId = 2\<rparr>]"
    using fb3 by (simp_all add: eb4 notifications_def)
  have eb5: "b5 = b4\<lparr>network := network b4 @ [requestFor (cursor b4)], pc := AwaitFetch\<rparr>"
    unfolding b5_def by (rule step_TimerFired) (simp_all add: fb4)
  have fb5: "network b5 = [requestFor None, requestFor None, requestFor (Some ''A'')]"
      "pointsRef b5 = [\<lparr>coordinates = (1, 2), pointId = 1\<rparr>, \<lparr>coordinates = (4, 6), pointId = 2\<rparr>]"
    using fb4 by (simp_all add: eb5)
  have rb4: "run neverNear noCluster
      [MapReady sampleMap, FetchSettled (Some firstPage), JsonSettled,
       EarlierFetchSettled (Some failure)]
      (startLoad (mounted None False)) = b4"
    unfolding run_def foldl.simps b4_def b3_def b2_def s1_def s0_def ..
  have rb5: "run neverNear noCluster
      [MapReady sampleMap, FetchSettled (Some firstPage), JsonSettled,
       EarlierFetchSettled (Some failure), TimerFired]
      (startLoad (mounted None False)) = b5"
    unfolding run_def foldl.simps b5_def b4_def b3_def b2_def s1_def s0_def ..
  show ?thesis unfolding ra rb4 rb5 using fa3 fb4 fb5 by simp
qed


text \<open>
  C9. For every numeric record id, decoding the cursor that encodes it gives the id
  back. The ids are integers; \<open>encodeCursor\<close> prints the id in decimal and writes it
  in base64url, \<open>decodeCursor\<close> reads the base64url text and parses the number.
\<close>

theorem cursor_round_trip: "decodeCursor (encodeCursor n) = Some n"
  by (simp add: decodeCursor_def encodeCursor_def fromBase64url_toBase64url jsNumber_jsString)




end
